theory Spec2Isabelle
  imports Main
begin

section \<open>Protocol types (types.ts)\<close>

text \<open>
  The envelopes of the bidirectional protocol. \<open>UUID\<close> is a plain string in the source.
  The payload of a publish is opaque to the broker (\<open>unknown\<close> in the source); it is
  carried here as its JSON text. Optional fields (\<open>request_id?\<close>, \<open>ts?\<close>,
  \<open>topic?\<close>, \<open>last_n?\<close>) are options, \<open>None\<close> standing for \<open>undefined\<close>.
\<close>

type_synonym UUID = string

datatype PublishPayload = PublishPayload (msg_id: UUID) (payload: string)

datatype ErrorCode = BAD_REQUEST | TOPIC_NOT_FOUND | SLOW_CONSUMER | UNAUTHORIZED | INTERNAL

text \<open>
  Client messages: the four kinds of the union \<open>ClientMessage\<close>, and \<open>UnknownMessage\<close>
  for a runtime value whose \<open>type\<close> is none of them (the \<open>default\<close> branch of the
  session's switch). The first field of each is \<open>request_id\<close>.
\<close>

datatype ClientMessage =
    SubscribeMessage "UUID option" string string "int option"
  | UnsubscribeMessage "UUID option" string string
  | PublishMessage "UUID option" string PublishPayload
  | PingMessage "UUID option"
  | UnknownMessage "UUID option"

text \<open>
  Server messages: every kind starts with the two fields of \<open>ServerMessageBase\<close>,
  \<open>request_id\<close> and \<open>ts\<close>. \<open>AckMessage\<close> then has \<open>topic?\<close> (its \<open>status\<close> is
  always \<open>"ok"\<close>), \<open>EventMessage\<close> has \<open>topic\<close> and \<open>message\<close>, \<open>ErrorMessage\<close> has
  \<open>error.code\<close> and \<open>error.message\<close>, \<open>InfoMessage\<close> has \<open>topic?\<close> and \<open>msg\<close>.
\<close>

datatype ServerMessage =
    AckMessage "UUID option" "string option" "string option"
  | EventMessage "UUID option" "string option" string PublishPayload
  | ErrorMessage "UUID option" "string option" ErrorCode string
  | PongMessage "UUID option" "string option"
  | InfoMessage "UUID option" "string option" "string option" string

fun request_id :: "ServerMessage \<Rightarrow> UUID option" where
  "request_id (AckMessage r t tp) = r"
| "request_id (EventMessage r t tp m) = r"
| "request_id (ErrorMessage r t c m) = r"
| "request_id (PongMessage r t) = r"
| "request_id (InfoMessage r t tp m) = r"

fun ts :: "ServerMessage \<Rightarrow> string option" where
  "ts (AckMessage r t tp) = t"
| "ts (EventMessage r t tp m) = t"
| "ts (ErrorMessage r t c m) = t"
| "ts (PongMessage r t) = t"
| "ts (InfoMessage r t tp m) = t"

fun is_event :: "ServerMessage \<Rightarrow> bool" where
  "is_event (EventMessage r t tp m) = True"
| "is_event other = False"

section \<open>BoundedQueue (broker.ts)\<close>

text \<open>
  The per-subscriber outbound queue: the array \<open>items\<close> and the configured \<open>capacity\<close>.
  Sizes are natural numbers. \<open>shift()\<close> on an empty array removes nothing, as \<open>tl []\<close>.
\<close>

record 'a BoundedQueue =
  items :: "'a list"
  capacity :: nat

definition new_BoundedQueue :: "nat \<Rightarrow> 'a BoundedQueue" where
  "new_BoundedQueue cap = \<lparr>items = [], capacity = cap\<rparr>"

text \<open>\<open>pushDropOldest\<close> returns the number of dropped items and the updated queue.\<close>

definition pushDropOldest :: "'a \<Rightarrow> 'a BoundedQueue \<Rightarrow> nat \<times> 'a BoundedQueue" where
  "pushDropOldest item q =
     (if length (items q) \<ge> capacity q
      then (1, q\<lparr>items := tl (items q) @ [item]\<rparr>)
      else (0, q\<lparr>items := items q @ [item]\<rparr>))"

text \<open>\<open>drain\<close> returns the removed batch and the updated queue (\<open>splice(0, min(max, length))\<close>).\<close>

definition drain :: "int \<Rightarrow> 'a BoundedQueue \<Rightarrow> 'a list \<times> 'a BoundedQueue" where
  "drain mx q =
     (if mx \<le> 0 then ([], q)
      else (let k = min (nat mx) (length (items q))
            in (take k (items q), q\<lparr>items := drop k (items q)\<rparr>)))"

definition queue_length :: "'a BoundedQueue \<Rightarrow> nat" where
  "queue_length q = length (items q)"

section \<open>RingBuffer (broker.ts)\<close>

text \<open>
  The replay ring: an array of \<open>capacity\<close> slots, each a value or \<open>undefined\<close>
  (\<open>None\<close>), the index \<open>start\<close> of the oldest element and the number \<open>count\<close> of
  elements held. Reading an array out of range gives \<open>undefined\<close>; writing out of range
  extends the array with empty slots.
\<close>

record 'a RingBuffer =
  buffer :: "'a option list"
  start :: nat
  count :: nat
  ring_capacity :: nat

definition new_RingBuffer :: "nat \<Rightarrow> 'a RingBuffer" where
  "new_RingBuffer cap = \<lparr>buffer = replicate cap None, start = 0, count = 0, ring_capacity = cap\<rparr>"

definition array_get :: "'a option list \<Rightarrow> nat \<Rightarrow> 'a option" where
  "array_get xs i = (if i < length xs then xs ! i else None)"

definition array_set :: "'a option list \<Rightarrow> nat \<Rightarrow> 'a option \<Rightarrow> 'a option list" where
  "array_set xs i v =
     (if i < length xs then xs[i := v] else xs @ replicate (i - length xs) None @ [v])"

definition append_ring :: "'a \<Rightarrow> 'a RingBuffer \<Rightarrow> 'a RingBuffer" where
  "append_ring v r =
     (if ring_capacity r = 0 then r
      else (let end = (start r + count r) mod ring_capacity r;
                r1 = r\<lparr>buffer := array_set (buffer r) end (Some v)\<rparr>
            in if count r < ring_capacity r
               then r1\<lparr>count := count r + 1\<rparr>
               else r1\<lparr>start := (start r + 1) mod ring_capacity r\<rparr>))"

text \<open>
  The slot read by iteration \<open>i\<close> of the loop of \<open>last\<close>. With capacity 0 the index
  \<open>(start + i) % 0\<close> is \<open>NaN\<close> and the read gives \<open>undefined\<close>.
\<close>

definition ring_slot :: "'a RingBuffer \<Rightarrow> nat \<Rightarrow> 'a option" where
  "ring_slot r i =
     (if ring_capacity r = 0 then None
      else array_get (buffer r) ((start r + i) mod ring_capacity r))"

text \<open>
  \<open>last(n)\<close>: \<open>take = min(n, count)\<close>, then the slots \<open>count - take, ..., count - 1\<close>
  in this order, skipping \<open>undefined\<close> ones. A negative \<open>n\<close> makes the loop start
  beyond \<open>count\<close>, so that it does not run. The function reads the ring and assigns to none
  of its fields: its only result is the list.
\<close>

definition last_n :: "int \<Rightarrow> 'a RingBuffer \<Rightarrow> 'a list" where
  "last_n n r =
     (let take = min n (int (count r))
      in List.map_filter (ring_slot r) [nat (int (count r) - take) ..< count r])"

text \<open>Appending a sequence of payloads, oldest first.\<close>

definition appends :: "'a list \<Rightarrow> 'a RingBuffer \<Rightarrow> 'a RingBuffer" where
  "appends xs r = foldl (\<lambda>r v. append_ring v r) r xs"

section \<open>JavaScript \<open>Map\<close>\<close>

text \<open>
  A \<open>Map\<close> iterates in insertion order, and \<open>set\<close> on a key that is present replaces the
  value where it stands: an association list, with \<open>set\<close> replacing in place or adding at
  the end, and \<open>delete\<close> reporting whether the key was there (\<open>Map_has\<close> before the call).
\<close>

primrec Map_get :: "('k \<times> 'v) list \<Rightarrow> 'k \<Rightarrow> 'v option" where
  "Map_get [] k = None"
| "Map_get (p # ps) k = (if fst p = k then Some (snd p) else Map_get ps k)"

definition Map_has :: "('k \<times> 'v) list \<Rightarrow> 'k \<Rightarrow> bool" where
  "Map_has m k = (Map_get m k \<noteq> None)"

primrec Map_set :: "('k \<times> 'v) list \<Rightarrow> 'k \<Rightarrow> 'v \<Rightarrow> ('k \<times> 'v) list" where
  "Map_set [] k v = [(k, v)]"
| "Map_set (p # ps) k v = (if fst p = k then (k, v) # ps else p # Map_set ps k v)"

definition Map_delete :: "('k \<times> 'v) list \<Rightarrow> 'k \<Rightarrow> ('k \<times> 'v) list" where
  "Map_delete m k = filter (\<lambda>p. fst p \<noteq> k) m"

definition Map_size :: "('k \<times> 'v) list \<Rightarrow> nat" where
  "Map_size m = length m"

section \<open>Broker state (broker.ts)\<close>

text \<open>
  A socket is identified by its \<open>socket.id\<close>. What the broker does to sockets is recorded,
  oldest first, in the field \<open>sent\<close> of the broker state: \<open>Emit s m\<close> for
  \<open>socket.emit("message", m)\<close> on socket \<open>s\<close> and \<open>Disconnect s\<close> for
  \<open>socket.disconnect(true)\<close>. The \<open>"disconnect"\<close> event that the transport raises for a
  closed socket is a later call of \<open>handleSocketDisconnect\<close>. Every reading of the clock (\<open>new Date().toISOString()\<close>)
  made while one operation runs is the parameter \<open>now\<close> of that operation.
\<close>

datatype effect = Emit string ServerMessage | Disconnect string

record BrokerOptions =
  ringBufferSize :: nat
  subscriberQueueSize :: nat
  heartbeatIntervalMs :: nat

record QueuedEvent =
  topic :: string
  message :: PublishPayload

record Subscriber =
  socket :: string
  clientId :: string
  queue :: "QueuedEvent BoundedQueue"

text \<open>The counters of a topic; \<open>stat_subscribers\<close> is the field \<open>stats.subscribers\<close>.\<close>

record TopicStats =
  messages :: nat
  stat_subscribers :: nat
  delivered :: nat
  dropped :: nat

record Topic =
  name :: string
  subscribers :: "(string \<times> Subscriber) list"
  ring :: "PublishPayload RingBuffer"
  stats :: TopicStats

record InMemoryBroker =
  topics :: "(string \<times> Topic) list"
  opts :: BrokerOptions
  sent :: "effect list"

datatype broker_error = conflict | notFound

definition new_InMemoryBroker :: "BrokerOptions \<Rightarrow> InMemoryBroker" where
  "new_InMemoryBroker os = \<lparr>topics = [], opts = os, sent = []\<rparr>"

definition socket_emit :: "string \<Rightarrow> ServerMessage \<Rightarrow> InMemoryBroker \<Rightarrow> InMemoryBroker" where
  "socket_emit s m b = b\<lparr>sent := sent b @ [Emit s m]\<rparr>"

definition socket_disconnect :: "string \<Rightarrow> InMemoryBroker \<Rightarrow> InMemoryBroker" where
  "socket_disconnect s b = b\<lparr>sent := sent b @ [Disconnect s]\<rparr>"

text \<open>\<open>if (requestId)\<close>: a request id is copied into the envelope unless it is absent or empty.\<close>

definition truthy :: "UUID option \<Rightarrow> UUID option" where
  "truthy r = (case r of None \<Rightarrow> None | Some s \<Rightarrow> if s = [] then None else Some s)"

definition not_found_text :: "string \<Rightarrow> string" where
  "not_found_text topicName = ''topic '' @ topicName @ '' not found''"

subsection \<open>Observability\<close>

definition getStats :: "InMemoryBroker \<Rightarrow> (string \<times> TopicStats) list" where
  "getStats b =
     map (\<lambda>p. (fst p, (stats (snd p))\<lparr>stat_subscribers := Map_size (subscribers (snd p))\<rparr>))
       (topics b)"

definition getTopics :: "InMemoryBroker \<Rightarrow> (string \<times> nat) list" where
  "getTopics b = map (\<lambda>p. (name (snd p), Map_size (subscribers (snd p)))) (topics b)"

subsection \<open>createTopic and deleteTopic\<close>

definition createTopic :: "string \<Rightarrow> InMemoryBroker \<Rightarrow> (broker_error + unit) \<times> InMemoryBroker" where
  "createTopic nm b =
     (if Map_has (topics b) nm then (Inl conflict, b)
      else (Inr (),
            b\<lparr>topics := Map_set (topics b) nm
                 \<lparr>name = nm, subscribers = [],
                  ring = new_RingBuffer (ringBufferSize (opts b)),
                  stats = \<lparr>messages = 0, stat_subscribers = 0, delivered = 0, dropped = 0\<rparr>\<rparr>\<rparr>))"

definition topic_deleted_info :: "string \<Rightarrow> string \<Rightarrow> ServerMessage" where
  "topic_deleted_info now nm = InfoMessage None (Some now) (Some nm) ''topic_deleted''"

text \<open>The body of the loop of \<open>deleteTopic\<close>: emit the notice, then disconnect.\<close>

definition notify :: "ServerMessage \<Rightarrow> InMemoryBroker \<Rightarrow> string \<times> Subscriber \<Rightarrow> InMemoryBroker" where
  "notify info b p = socket_disconnect (socket (snd p)) (socket_emit (socket (snd p)) info b)"

definition deleteTopic :: "string \<Rightarrow> string \<Rightarrow> InMemoryBroker \<Rightarrow> (broker_error + unit) \<times> InMemoryBroker" where
  "deleteTopic now nm b =
     (case Map_get (topics b) nm of
        None \<Rightarrow> (Inl notFound, b)
      | Some tp \<Rightarrow>
          (let b1 = foldl (notify (topic_deleted_info now nm)) b (subscribers tp)
           in (Inr (), b1\<lparr>topics := Map_delete (topics b1) nm\<rparr>)))"

text \<open>
  The same run of \<open>deleteTopic\<close>, statement by statement: the states of the broker after
  the lookup, after each \<open>emit\<close>, after each \<open>disconnect\<close>, and last after
  \<open>this.topics.delete(name)\<close>. In \<open>notify_states\<close> the state before an iteration is the
  state after the \<open>disconnect\<close> of the one before it.
\<close>

primrec notify_states :: "ServerMessage \<Rightarrow> (string \<times> Subscriber) list \<Rightarrow> InMemoryBroker \<Rightarrow> InMemoryBroker list" where
  "notify_states info [] b = [b]"
| "notify_states info (p # ps) b =
     b # socket_emit (socket (snd p)) info b # notify_states info ps (notify info b p)"

definition deleteTopic_states :: "string \<Rightarrow> string \<Rightarrow> InMemoryBroker \<Rightarrow> InMemoryBroker list" where
  "deleteTopic_states now nm b =
     (case Map_get (topics b) nm of
        None \<Rightarrow> [b]
      | Some tp \<Rightarrow>
          (let sts = notify_states (topic_deleted_info now nm) (subscribers tp) b
           in sts @ [(last sts)\<lparr>topics := Map_delete (topics (last sts)) nm\<rparr>]))"

subsection \<open>flush, and the enqueue-and-drain step of subscribe and publish\<close>

text \<open>
  \<open>flush(sub, topic)\<close> touches the queue of \<open>sub\<close>, the counter \<open>topic.stats.delivered\<close>
  and the socket of \<open>sub\<close>: it is a function of the subscriber, the counters and the log.
\<close>

primrec flush_loop :: "string \<Rightarrow> string \<Rightarrow> QueuedEvent list \<Rightarrow> TopicStats \<times> effect list \<Rightarrow> TopicStats \<times> effect list" where
  "flush_loop now s [] acc = acc"
| "flush_loop now s (ev # batch) acc =
     flush_loop now s batch
       ((fst acc)\<lparr>delivered := delivered (fst acc) + 1\<rparr>,
        snd acc @ [Emit s (EventMessage None (Some now) (topic ev) (message ev))])"

definition flush :: "string \<Rightarrow> Subscriber \<Rightarrow> TopicStats \<times> effect list \<Rightarrow> Subscriber \<times> TopicStats \<times> effect list" where
  "flush now sub acc =
     (let dr = drain 100 (queue sub)
      in (sub\<lparr>queue := snd dr\<rparr>, flush_loop now (socket sub) (fst dr) acc))"

text \<open>
  The three statements that \<open>subscribe\<close> (replay) and \<open>publish\<close> (fan-out) both run for
  one subscriber and one payload: \<open>pushDropOldest\<close>, the account of the drop, \<open>flush\<close>.
\<close>

definition enqueue_and_flush :: "string \<Rightarrow> string \<Rightarrow> PublishPayload \<Rightarrow> Subscriber \<Rightarrow> TopicStats \<times> effect list \<Rightarrow> Subscriber \<times> TopicStats \<times> effect list" where
  "enqueue_and_flush now topicName m sub acc =
     (let pd = pushDropOldest \<lparr>topic = topicName, message = m\<rparr> (queue sub);
          st = (if fst pd > 0 then (fst acc)\<lparr>dropped := dropped (fst acc) + fst pd\<rparr> else fst acc)
      in flush now (sub\<lparr>queue := snd pd\<rparr>) (st, snd acc))"

subsection \<open>subscribe and unsubscribe\<close>

primrec replay :: "string \<Rightarrow> string \<Rightarrow> PublishPayload list \<Rightarrow> Subscriber \<times> TopicStats \<times> effect list \<Rightarrow> Subscriber \<times> TopicStats \<times> effect list" where
  "replay now topicName [] acc = acc"
| "replay now topicName (m # ms) acc =
     replay now topicName ms (enqueue_and_flush now topicName m (fst acc) (snd acc))"

text \<open>\<open>lastN && lastN > 0\<close>: the payloads to replay.\<close>

definition toSend :: "int option \<Rightarrow> PublishPayload RingBuffer \<Rightarrow> PublishPayload list" where
  "toSend lastN r = (case lastN of None \<Rightarrow> [] | Some n \<Rightarrow> if n > 0 then last_n n r else [])"

text \<open>
  The record \<open>sub\<close> is installed in the table first and its queue is used by the replay
  afterwards; the table holds the same object, so it is written back after the replay.
\<close>

definition subscribe :: "string \<Rightarrow> string \<Rightarrow> string \<Rightarrow> string \<Rightarrow> int option \<Rightarrow> UUID option \<Rightarrow> InMemoryBroker \<Rightarrow> InMemoryBroker" where
  "subscribe now s topicName cid lastN requestId b =
     (case Map_get (topics b) topicName of
        None \<Rightarrow>
          socket_emit s (ErrorMessage (truthy requestId) (Some now) TOPIC_NOT_FOUND
                           (not_found_text topicName)) b
      | Some tp \<Rightarrow>
          (let sub = \<lparr>socket = s, clientId = cid,
                      queue = new_BoundedQueue (subscriberQueueSize (opts b))\<rparr>;
               subs1 = Map_set (subscribers tp) s sub;
               st1 = (stats tp)\<lparr>stat_subscribers := Map_size subs1\<rparr>;
               out1 = sent b @ [Emit s (AckMessage (truthy requestId) (Some now) (Some topicName))];
               rp = replay now topicName (toSend lastN (ring tp)) (sub, st1, out1);
               tp1 = tp\<lparr>subscribers := Map_set subs1 s (fst rp), stats := fst (snd rp)\<rparr>
           in b\<lparr>topics := Map_set (topics b) topicName tp1, sent := snd (snd rp)\<rparr>))"

definition unsubscribe :: "string \<Rightarrow> string \<Rightarrow> string \<Rightarrow> string \<Rightarrow> UUID option \<Rightarrow> InMemoryBroker \<Rightarrow> InMemoryBroker" where
  "unsubscribe now s topicName cid requestId b =
     (case Map_get (topics b) topicName of
        None \<Rightarrow>
          socket_emit s (ErrorMessage (truthy requestId) (Some now) TOPIC_NOT_FOUND
                           (not_found_text topicName)) b
      | Some tp \<Rightarrow>
          (let subs1 = Map_delete (subscribers tp) s;
               tp1 = tp\<lparr>subscribers := subs1,
                        stats := (stats tp)\<lparr>stat_subscribers := Map_size subs1\<rparr>\<rparr>
           in socket_emit s (AckMessage (truthy requestId) (Some now) (Some topicName))
                (b\<lparr>topics := Map_set (topics b) topicName tp1\<rparr>)))"

subsection \<open>publish\<close>

text \<open>The loop over \<open>topic.subscribers.values()\<close>, in the order of the table.\<close>

primrec fan_out :: "string \<Rightarrow> string \<Rightarrow> PublishPayload \<Rightarrow> (string \<times> Subscriber) list \<Rightarrow> TopicStats \<times> effect list \<Rightarrow> (string \<times> Subscriber) list \<times> TopicStats \<times> effect list" where
  "fan_out now topicName m [] acc = ([], acc)"
| "fan_out now topicName m (p # ps) acc =
     (let r1 = enqueue_and_flush now topicName m (snd p) acc;
          r2 = fan_out now topicName m ps (snd r1)
      in ((fst p, fst r1) # fst r2, snd r2))"

definition publish :: "string \<Rightarrow> string \<Rightarrow> PublishPayload \<Rightarrow> UUID option \<Rightarrow> InMemoryBroker \<Rightarrow> (broker_error + string) \<times> InMemoryBroker" where
  "publish now topicName m requestId b =
     (case Map_get (topics b) topicName of
        None \<Rightarrow> (Inl notFound, b)
      | Some tp \<Rightarrow>
          (let st1 = (stats tp)\<lparr>messages := messages (stats tp) + 1\<rparr>;
               ring1 = append_ring m (ring tp);
               fo = fan_out now topicName m (subscribers tp) (st1, sent b);
               tp1 = tp\<lparr>subscribers := fst fo, ring := ring1, stats := fst (snd fo)\<rparr>
           in (Inr now, b\<lparr>topics := Map_set (topics b) topicName tp1, sent := snd (snd fo)\<rparr>)))"

subsection \<open>handleSocketDisconnect\<close>

definition drop_socket :: "string \<Rightarrow> Topic \<Rightarrow> Topic" where
  "drop_socket s tp =
     (if Map_has (subscribers tp) s
      then (let subs1 = Map_delete (subscribers tp) s
            in tp\<lparr>subscribers := subs1,
                  stats := (stats tp)\<lparr>stat_subscribers := Map_size subs1\<rparr>\<rparr>)
      else tp)"

definition handleSocketDisconnect :: "string \<Rightarrow> InMemoryBroker \<Rightarrow> InMemoryBroker" where
  "handleSocketDisconnect s b = b\<lparr>topics := map (\<lambda>p. (fst p, drop_socket s (snd p))) (topics b)\<rparr>"

subsection \<open>The heartbeat (start)\<close>

text \<open>One tick of the timer, given the sockets that are connected at that time.\<close>

definition heartbeat :: "string \<Rightarrow> string list \<Rightarrow> InMemoryBroker \<Rightarrow> InMemoryBroker" where
  "heartbeat now socks b =
     foldl (\<lambda>b s. socket_emit s (InfoMessage None (Some now) None ''ping'') b) b socks"

section \<open>The session (index.ts)\<close>

text \<open>
  The handler of \<open>"message"\<close> on a socket. The broker calls it makes raise no exception on
  the messages modelled here, so the \<open>catch\<close> branch (\<open>INTERNAL\<close>) is not taken.
\<close>

definition on_message :: "string \<Rightarrow> string \<Rightarrow> ClientMessage \<Rightarrow> InMemoryBroker \<Rightarrow> InMemoryBroker" where
  "on_message now s msg b =
     (case msg of
        SubscribeMessage r tpc cid lastN \<Rightarrow> subscribe now s tpc cid lastN r b
      | UnsubscribeMessage r tpc cid \<Rightarrow> unsubscribe now s tpc cid r b
      | PublishMessage r tpc m \<Rightarrow>
          (let res = publish now tpc m r b
           in case fst res of
                Inl e \<Rightarrow> socket_emit s (ErrorMessage r (Some now) TOPIC_NOT_FOUND
                                          (not_found_text tpc)) (snd res)
              | Inr t \<Rightarrow> socket_emit s (AckMessage r (Some t) (Some tpc)) (snd res))
      | PingMessage r \<Rightarrow> socket_emit s (PongMessage r (Some now)) b
      | UnknownMessage r \<Rightarrow> socket_emit s (ErrorMessage r (Some now) BAD_REQUEST ''unknown type'') b)"

fun client_request_id :: "ClientMessage \<Rightarrow> UUID option" where
  "client_request_id (SubscribeMessage r tpc cid lastN) = r"
| "client_request_id (UnsubscribeMessage r tpc cid) = r"
| "client_request_id (PublishMessage r tpc m) = r"
| "client_request_id (PingMessage r) = r"
| "client_request_id (UnknownMessage r) = r"

section \<open>Runs of broker operations\<close>

datatype broker_op =
    CreateTopic string
  | DeleteTopic string
  | Subscribe string string string "int option" "UUID option"
  | Unsubscribe string string string "UUID option"
  | Publish string PublishPayload "UUID option"
  | HandleSocketDisconnect string

text \<open>An operation with the clock reading of its call.\<close>

fun apply_op :: "InMemoryBroker \<Rightarrow> string \<times> broker_op \<Rightarrow> InMemoryBroker" where
  "apply_op b (now, CreateTopic nm) = snd (createTopic nm b)"
| "apply_op b (now, DeleteTopic nm) = snd (deleteTopic now nm b)"
| "apply_op b (now, Subscribe s tpc cid lastN r) = subscribe now s tpc cid lastN r b"
| "apply_op b (now, Unsubscribe s tpc cid r) = unsubscribe now s tpc cid r b"
| "apply_op b (now, Publish tpc m r) = snd (publish now tpc m r b)"
| "apply_op b (now, HandleSocketDisconnect s) = handleSocketDisconnect s b"

definition run :: "(string \<times> broker_op) list \<Rightarrow> InMemoryBroker \<Rightarrow> InMemoryBroker" where
  "run ops b = foldl apply_op b ops"

section \<open>Notions used by the properties\<close>

subsection \<open>The ring as a list\<close>

text \<open>The shape every ring built by the constructor and \<open>append\<close> has, and the slots it holds, oldest first.\<close>

definition ring_inv :: "'a RingBuffer \<Rightarrow> bool" where
  "ring_inv r =
     (length (buffer r) = ring_capacity r \<and> count r \<le> ring_capacity r \<and>
      (0 < ring_capacity r \<longrightarrow> start r < ring_capacity r))"

definition contents :: "'a RingBuffer \<Rightarrow> 'a option list" where
  "contents r = map (ring_slot r) [0 ..< count r]"

subsection \<open>Shape of the subscriber tables\<close>

text \<open>
  An entry of a subscriber table is keyed by the id of its own socket, and between two
  operations its queue is empty and has the configured capacity; the keys of a table are
  distinct, as those of a \<open>Map\<close> are.
\<close>

definition sub_ok :: "nat \<Rightarrow> string \<times> Subscriber \<Rightarrow> bool" where
  "sub_ok Q p = (socket (snd p) = fst p \<and> items (queue (snd p)) = [] \<and> capacity (queue (snd p)) = Q)"

definition topic_ok :: "nat \<Rightarrow> Topic \<Rightarrow> bool" where
  "topic_ok Q tp = (list_all (sub_ok Q) (subscribers tp) \<and> distinct (map fst (subscribers tp)))"

definition broker_ok :: "InMemoryBroker \<Rightarrow> bool" where
  "broker_ok b = list_all (\<lambda>p. topic_ok (subscriberQueueSize (opts b)) (snd p)) (topics b)"

definition all_queues_empty :: "InMemoryBroker \<Rightarrow> bool" where
  "all_queues_empty b =
     list_all (\<lambda>p. list_all (\<lambda>q. queue_length (queue (snd q)) = 0) (subscribers (snd p))) (topics b)"

definition all_queues_bounded :: "InMemoryBroker \<Rightarrow> bool" where
  "all_queues_bounded b =
     list_all (\<lambda>p. list_all (\<lambda>q. capacity (queue (snd q)) = subscriberQueueSize (opts b) \<and>
                                  queue_length (queue (snd q)) \<le> capacity (queue (snd q)))
                      (subscribers (snd p))) (topics b)"

text \<open>The number of deliveries still queued for the subscribers of a topic.\<close>

definition still_queued :: "InMemoryBroker \<Rightarrow> string \<Rightarrow> nat" where
  "still_queued b t =
     (case Map_get (topics b) t of
        None \<Rightarrow> 0
      | Some tp \<Rightarrow> sum_list (map (\<lambda>q. queue_length (queue (snd q))) (subscribers tp)))"

subsection \<open>Reading the log\<close>

text \<open>What an operation added to the log.\<close>

definition emitted :: "InMemoryBroker \<Rightarrow> InMemoryBroker \<Rightarrow> effect list" where
  "emitted b b' = drop (length (sent b)) (sent b')"

text \<open>The payloads of the \<open>event\<close> envelopes emitted on socket \<open>s\<close> for topic \<open>t\<close>, in order.\<close>

fun event_payload :: "string \<Rightarrow> string \<Rightarrow> effect \<Rightarrow> PublishPayload option" where
  "event_payload s t (Emit s' (EventMessage r tm t' m)) = (if s' = s \<and> t' = t then Some m else None)"
| "event_payload s t other = None"

definition events_for :: "string \<Rightarrow> string \<Rightarrow> effect list \<Rightarrow> PublishPayload list" where
  "events_for s t es = List.map_filter (event_payload s t) es"

text \<open>
  The format of a clock reading. \<open>Date.prototype.toISOString\<close> returns the ISO-8601 form
  \<open>YYYY-MM-DDTHH:mm:ss.sssZ\<close>, the final \<open>Z\<close> naming UTC (years 0000 to 9999): 24
  characters, digits but for the seven separators.
\<close>

definition is_digit :: "char \<Rightarrow> bool" where
  "is_digit c = (c \<in> set ''0123456789'')"

definition iso8601_utc :: "string \<Rightarrow> bool" where
  "iso8601_utc t =
     (length t = 24
      \<and> list_all (\<lambda>i. is_digit (t ! i)) [0, 1, 2, 3, 5, 6, 8, 9, 11, 12, 14, 15, 17, 18, 20, 21, 22]
      \<and> t ! 4 = CHR ''-'' \<and> t ! 7 = CHR ''-'' \<and> t ! 10 = CHR ''T''
      \<and> t ! 13 = CHR '':'' \<and> t ! 16 = CHR '':'' \<and> t ! 19 = CHR ''.'' \<and> t ! 23 = CHR ''Z'')"

text \<open>An emitted envelope whose \<open>ts\<close> is the clock reading \<open>now\<close>.\<close>

fun stamped :: "string \<Rightarrow> effect \<Rightarrow> bool" where
  "stamped now (Emit s m) = (ts m = Some now)"
| "stamped now (Disconnect s) = True"

text \<open>An emitted envelope that carries a \<open>ts\<close>, and the \<open>ts\<close> is an ISO-8601 UTC timestamp.\<close>

fun has_iso_ts :: "effect \<Rightarrow> bool" where
  "has_iso_ts (Emit s m) = (case ts m of None \<Rightarrow> False | Some t \<Rightarrow> iso8601_utc t)"
| "has_iso_ts (Disconnect s) = True"

text \<open>The inbound kinds whose replies are built by the broker under \<open>if (requestId)\<close>.\<close>

fun is_subscription :: "ClientMessage \<Rightarrow> bool" where
  "is_subscription (SubscribeMessage r tpc cid lastN) = True"
| "is_subscription (UnsubscribeMessage r tpc cid) = True"
| "is_subscription other = False"

text \<open>A reply (\<open>ack\<close>, \<open>error\<close>, \<open>pong\<close>) carries the request id \<open>r\<close>; an \<open>event\<close> carries none.\<close>

fun reply_echoes :: "UUID \<Rightarrow> effect \<Rightarrow> bool" where
  "reply_echoes r (Emit s m) = (if is_event m then request_id m = None else request_id m = Some r)"
| "reply_echoes r (Disconnect s) = True"

fun no_request_id :: "effect \<Rightarrow> bool" where
  "no_request_id (Emit s m) = (request_id m = None)"
| "no_request_id (Disconnect s) = True"

subsection \<open>Example states\<close>

text \<open>The options of index.ts.\<close>

definition default_opts :: BrokerOptions where
  "default_opts = \<lparr>ringBufferSize = 100, subscriberQueueSize = 512, heartbeatIntervalMs = 30000\<rparr>"

text \<open>A broker with the topic \<open>orders\<close> and one subscriber, the socket \<open>c1\<close>.\<close>

definition orders_broker :: InMemoryBroker where
  "orders_broker =
     run [(''t0'', CreateTopic ''orders''),
          (''t1'', Subscribe ''c1'' ''orders'' ''alice'' None None)]
       (new_InMemoryBroker default_opts)"

text \<open>
  Scenario S6 (the backpressure part of the end-to-end test): topic \<open>bp\<close>, one subscriber,
  then publishes \<open>bp-0\<close>, \<open>bp-1\<close>, ... with payloads \<open>{seq: i}\<close>.
\<close>

fun decimal :: "nat \<Rightarrow> string" where
  "decimal n =
     (if n < 10 then [''0123456789'' ! n]
      else decimal (n div 10) @ [''0123456789'' ! (n mod 10)])"

definition bp_message :: "nat \<Rightarrow> PublishPayload" where
  "bp_message i = PublishPayload (''bp-'' @ decimal i) (''{seq:'' @ decimal i @ ''}'')"

definition s6_setup :: InMemoryBroker where
  "s6_setup =
     run [(''t0'', CreateTopic ''bp''),
          (''t1'', Subscribe ''S'' ''bp'' ''bp1'' None None)]
       (new_InMemoryBroker default_opts)"

definition s6 :: "nat \<Rightarrow> InMemoryBroker" where
  "s6 n = run (map (\<lambda>i. (''t2'', Publish ''bp'' (bp_message i) None)) [0 ..< n]) s6_setup"

subsection \<open>What the broker emits\<close>

text \<open>The \<open>event\<close> envelope that \<open>flush\<close> builds for a queued event, and its shape.\<close>

definition event_of :: "string \<Rightarrow> string \<Rightarrow> QueuedEvent \<Rightarrow> effect" where
  "event_of now s ev = Emit s (EventMessage None (Some now) (topic ev) (message ev))"

fun is_event_at :: "string \<Rightarrow> effect \<Rightarrow> bool" where
  "is_event_at now (Emit s (EventMessage r tm tp m)) = (r = None \<and> tm = Some now)"
| "is_event_at now other = False"

text \<open>What \<open>deleteTopic\<close> does to the subscribers of a table, in the order of the table.\<close>

definition notices :: "ServerMessage \<Rightarrow> (string \<times> Subscriber) list \<Rightarrow> effect list" where
  "notices info subs = concat (map (\<lambda>p. [Emit (socket (snd p)) info, Disconnect (socket (snd p))]) subs)"

text \<open>A short run: create a topic, subscribe to it, publish to it.\<close>

definition three_ops :: "(string \<times> broker_op) list" where
  "three_ops =
     [(''t0'', CreateTopic ''orders''),
      (''t1'', Subscribe ''c1'' ''orders'' ''alice'' None None),
      (''t2'', Publish ''orders'' (PublishPayload ''m0'' ''{}'') None)]"

text \<open>The broker \<open>orders_broker\<close> with an event left in the queue of \<open>c1\<close>.\<close>

definition pending_broker :: InMemoryBroker where
  "pending_broker =
     orders_broker\<lparr>topics :=
       [(''orders'',
         \<lparr>name = ''orders'',
          subscribers =
            [(''c1'', \<lparr>socket = ''c1'', clientId = ''alice'',
                       queue = \<lparr>items = [\<lparr>topic = ''orders'', message = PublishPayload ''m0'' ''{}''\<rparr>],
                                capacity = 512\<rparr>\<rparr>)],
          ring = new_RingBuffer 100,
          stats = \<lparr>messages = 1, stat_subscribers = 1, delivered = 0, dropped = 0\<rparr>\<rparr>)]\<rparr>"

section \<open>The replay ring\<close>

lemma mod_shift_inj_aux:
  fixes s i j c :: nat
  assumes "i \<le> j" "j < c" "(s + i) mod c = (s + j) mod c"
  shows "i = j"
proof -
  have "(s + j) mod c = (s + i) mod c" using assms by simp
  moreover have "s + i \<le> s + j" using assms by simp
  ultimately have "c dvd (s + j) - (s + i)"
    using mod_eq_dvd_iff_nat[of "s + i" "s + j" c] by blast
  then have "c dvd j - i" by simp
  moreover have "j - i < c" using assms by simp
  ultimately have "j - i = 0" by (meson dvd_imp_le not_less zero_less_iff_neq_zero)
  then show ?thesis using assms by simp
qed

lemma mod_shift_inj:
  fixes s i j c :: nat
  assumes "i < c" "j < c" "(s + i) mod c = (s + j) mod c"
  shows "i = j"
proof (cases "i \<le> j")
  case True then show ?thesis using assms mod_shift_inj_aux by blast
next
  case False
  then have "j \<le> i" by simp
  then show ?thesis using assms mod_shift_inj_aux[of j i c s] by simp
qed

lemma ring_inv_new: "ring_inv (new_RingBuffer R)"
  by (simp add: ring_inv_def new_RingBuffer_def)

lemma ring_inv_append: "ring_inv r \<Longrightarrow> ring_inv (append_ring v r)"
  by (auto simp: ring_inv_def append_ring_def array_set_def Let_def)

lemma capacity_append [simp]: "ring_capacity (append_ring v r) = ring_capacity r"
  by (simp add: append_ring_def Let_def)

lemma contents_append_zero: "ring_capacity r = 0 \<Longrightarrow> append_ring v r = r"
  by (simp add: append_ring_def)

lemma contents_append_grow:
  assumes "ring_inv r" "count r < ring_capacity r"
  shows "contents (append_ring v r) = contents r @ [Some v]"
proof -
  let ?c = "ring_capacity r"
  have c: "0 < ?c" using assms by simp
  have len: "length (buffer r) = ?c" using assms by (simp add: ring_inv_def)
  have e: "(start r + count r) mod ?c < ?c" using c by simp
  have old: "ring_slot (append_ring v r) i = ring_slot r i" if "i < count r" for i
  proof -
    have "(start r + i) mod ?c \<noteq> (start r + count r) mod ?c"
      using mod_shift_inj[of i ?c "count r" "start r"] that assms by auto
    then show ?thesis
      using c len assms by (simp add: ring_slot_def append_ring_def Let_def array_set_def array_get_def)
  qed
  have new: "ring_slot (append_ring v r) (count r) = Some v"
    using c len e assms by (simp add: ring_slot_def append_ring_def Let_def array_set_def array_get_def)
  have cnt: "count (append_ring v r) = count r + 1"
    using c assms by (simp add: append_ring_def Let_def)
  show ?thesis
    unfolding contents_def cnt using old new by simp
qed

lemma contents_append_full:
  assumes "ring_inv r" "count r = ring_capacity r" "0 < ring_capacity r"
  shows "contents (append_ring v r) = tl (contents r) @ [Some v]"
proof -
  let ?c = "ring_capacity r"
  let ?r' = "append_ring v r"
  have c: "0 < ?c" using assms by simp
  have len: "length (buffer r) = ?c" using assms by (simp add: ring_inv_def)
  have st: "start r < ?c" using assms by (simp add: ring_inv_def)
  have e: "(start r + count r) mod ?c = start r" using assms st by simp
  have cnt: "count ?r' = ?c" using assms by (simp add: append_ring_def Let_def)
  have st': "start ?r' = (start r + 1) mod ?c" using assms by (simp add: append_ring_def Let_def)
  have buf': "buffer ?r' = (buffer r)[start r := Some v]"
    using assms e len st by (simp add: append_ring_def Let_def array_set_def)
  have idx: "(start ?r' + i) mod ?c = (start r + (i + 1)) mod ?c" for i
  proof -
    have "((start r + 1) mod ?c + i) mod ?c = (start r + 1 + i) mod ?c"
      by (rule mod_add_left_eq)
    then show ?thesis unfolding st' by (simp add: add.commute add.left_commute)
  qed
  have old: "ring_slot ?r' i = ring_slot r (i + 1)" if "i + 1 < ?c" for i
  proof -
    have "(start r + (i + 1)) mod ?c \<noteq> (start r + 0) mod ?c"
      using mod_shift_inj[of "i + 1" ?c 0 "start r"] that c by auto
    then have "(start r + (i + 1)) mod ?c \<noteq> start r" using st by simp
    then have "(start ?r' + i) mod ?c \<noteq> start r" using idx[of i] by simp
    moreover have "ring_slot ?r' i = array_get (buffer ?r') ((start ?r' + i) mod ?c)"
      using c by (simp add: ring_slot_def)
    moreover have "ring_slot r (i + 1) = array_get (buffer r) ((start ?r' + i) mod ?c)"
      using c idx[of i] by (simp add: ring_slot_def)
    ultimately show ?thesis
      using c len by (simp add: buf' array_get_def)
  qed
  have new: "ring_slot ?r' (?c - 1) = Some v"
  proof -
    have "(start r + (?c - 1 + 1)) mod ?c = start r" using c st by simp
    then have "(start ?r' + (?c - 1)) mod ?c = start r" using idx[of "?c - 1"] by simp
    moreover have "ring_slot ?r' (?c - 1) = array_get (buffer ?r') ((start ?r' + (?c - 1)) mod ?c)"
      using c by (simp add: ring_slot_def)
    ultimately show ?thesis using len st by (simp add: buf' array_get_def)
  qed
  show ?thesis
  proof (rule nth_equalityI)
    show "length (contents ?r') = length (tl (contents r) @ [Some v])"
      using c assms by (simp add: contents_def cnt)
  next
    fix i assume "i < length (contents ?r')"
    then have i: "i < ?c" by (simp add: contents_def cnt)
    show "contents ?r' ! i = (tl (contents r) @ [Some v]) ! i"
    proof (cases "i + 1 < ?c")
      case True
      then have "i < ?c - 1" by simp
      then show ?thesis
        using i assms old[OF True] by (simp add: contents_def cnt nth_append nth_tl)
    next
      case False
      then have "i = ?c - 1" using i by simp
      then show ?thesis
        using i assms new by (simp add: contents_def cnt nth_append)
    qed
  qed
qed

lemma contents_new: "contents (new_RingBuffer R) = []"
  by (simp add: contents_def new_RingBuffer_def)

lemma ring_inv_appends: "ring_inv r \<Longrightarrow> ring_inv (appends xs r)"
  unfolding appends_def by (induction xs arbitrary: r) (simp_all add: ring_inv_append)

lemma appends_snoc: "appends (xs @ [x]) r = append_ring x (appends xs r)"
  by (simp add: appends_def)

lemma capacity_appends [simp]: "ring_capacity (appends xs r) = ring_capacity r"
  unfolding appends_def by (induction xs arbitrary: r) simp_all

lemma count_contents: "length (contents r) = count r"
  by (simp add: contents_def)

lemma contents_appends_new:
  "contents (appends xs (new_RingBuffer R)) = map Some (drop (length xs - R) xs)"
proof (induction xs rule: rev_induct)
  case Nil
  show ?case by (simp add: appends_def contents_new)
next
  case (snoc x xs)
  let ?r = "appends xs (new_RingBuffer R)"
  have inv: "ring_inv ?r" by (simp add: ring_inv_appends ring_inv_new)
  have cap: "ring_capacity ?r = R" by (simp add: new_RingBuffer_def)
  have cnt: "count ?r = min (length xs) R"
    using snoc count_contents[of ?r] by simp
  show ?case
  proof (cases "R = 0")
    case True
    then show ?thesis using snoc cap by (simp add: appends_snoc contents_append_zero)
  next
    case False
    show ?thesis
    proof (cases "count ?r < R")
      case True
      then have "length xs < R" using cnt by simp
      then show ?thesis
        using contents_append_grow[OF inv, of x] True cap snoc by (simp add: appends_snoc)
    next
      case full: False
      then have c: "count ?r = R" "R \<le> length xs" using cnt by simp_all
      have "contents (append_ring x ?r) = tl (contents ?r) @ [Some x]"
        using contents_append_full[OF inv, of x] c cap False by simp
      also have "\<dots> = map Some (drop (Suc (length xs) - R) xs) @ [Some x]"
        using snoc c by (simp add: drop_Suc drop_tl Suc_diff_le map_tl)
      also have "\<dots> = map Some (drop (length (xs @ [x]) - R) (xs @ [x]))"
        using c False by (simp add: Suc_diff_le)
      finally show ?thesis by (simp add: appends_snoc)
    qed
  qed
qed

lemma map_filter_Some: "List.map_filter f xs = ys" if "map f xs = map Some ys"
  using that by (induction xs arbitrary: ys) (auto simp: List.map_filter_simps)

lemma last_n_contents:
  "map (ring_slot r) [nat (int (count r) - min n (int (count r))) ..< count r]
     = drop (count r - nat (min n (int (count r)))) (contents r)" if "0 \<le> n"
proof -
  have "nat (int (count r) - min n (int (count r))) = count r - nat (min n (int (count r)))"
    using that by linarith
  then show ?thesis
    by (simp add: contents_def drop_map)
qed

lemma last_n_appends_new:
  assumes "0 \<le> n"
  shows "last_n n (appends xs (new_RingBuffer R))
         = drop (length xs - min (nat n) (min (length xs) R)) xs"
proof -
  let ?r = "appends xs (new_RingBuffer R)"
  have cnt: "count ?r = min (length xs) R"
    using contents_appends_new[of xs R] count_contents[of ?r] by simp
  have "map (ring_slot ?r) [nat (int (count ?r) - min n (int (count ?r))) ..< count ?r]
        = map Some (drop (count ?r - nat (min n (int (count ?r)))) (drop (length xs - R) xs))"
    using last_n_contents[OF assms, of ?r] by (simp add: contents_appends_new drop_map)
  then have "last_n n ?r = drop (count ?r - nat (min n (int (count ?r)))) (drop (length xs - R) xs)"
    unfolding last_n_def Let_def by (rule map_filter_Some)
  also have "\<dots> = drop (length xs - min (nat n) (min (length xs) R)) xs"
  proof -
    have "nat (min n (int (count ?r))) = min (nat n) (count ?r)" using assms by linarith
    then show ?thesis using cnt by (simp add: min_def) 
  qed
  finally show ?thesis .
qed

lemma count_appends_new: "count (appends xs (new_RingBuffer R)) = min (length xs) R"
  using contents_appends_new[of xs R] count_contents[of "appends xs (new_RingBuffer R)"] by simp

text \<open>
  Claim C5. A ring of capacity \<open>R\<close> to which the payloads \<open>xs\<close> were appended, oldest first,
  holds \<open>min (length xs) R\<close> payloads; reading all of them gives the last \<open>R\<close> payloads of
  \<open>xs\<close> in insertion order; for \<open>n \<ge> 0\<close>, \<open>last(n)\<close> returns exactly \<open>min(n, size)\<close>
  payloads, the most recent ones, oldest first; \<open>last(n)\<close> with \<open>n \<ge> size\<close> equals
  \<open>last(size)\<close>; and with \<open>R = 0\<close> an append leaves the ring as it is and \<open>last(n)\<close> is
  empty. \<open>last_n\<close> returns a list only, so the ring is the same after the call.
\<close>

theorem ring_last_spec:
  assumes "r = appends xs (new_RingBuffer R)" and "0 \<le> n"
  shows "ring_capacity r = R
       \<and> count r = min (length xs) R
       \<and> last_n (int (count r)) r = drop (length xs - R) xs
       \<and> last_n n r = drop (length xs - min (nat n) (count r)) xs
       \<and> length (last_n n r) = min (nat n) (count r)
       \<and> (int (count r) \<le> n \<longrightarrow> last_n n r = last_n (int (count r)) r)
       \<and> (R = 0 \<longrightarrow> append_ring v r = r \<and> last_n n r = [])"
proof -
  have cap: "ring_capacity r = R" using assms by (simp add: new_RingBuffer_def)
  have cnt: "count r = min (length xs) R" using assms by (simp add: count_appends_new)
  have ln: "last_n m r = drop (length xs - min (nat m) (count r)) xs" if "0 \<le> m" for m
    using last_n_appends_new[OF that, of xs R] assms cnt by simp
  have all: "last_n (int (count r)) r = drop (length xs - R) xs"
    using ln[of "int (count r)"] cnt by (simp add: min_def)
  have len: "length (last_n n r) = min (nat n) (count r)"
    using ln[OF assms(2)] cnt by (simp add: min_def)
  have ge: "int (count r) \<le> n \<longrightarrow> last_n n r = last_n (int (count r)) r"
  proof
    assume "int (count r) \<le> n"
    then have "min (nat n) (count r) = count r" by linarith
    then show "last_n n r = last_n (int (count r)) r"
      using ln[OF assms(2)] ln[of "int (count r)"] by simp
  qed
  have zero: "R = 0 \<longrightarrow> append_ring v r = r \<and> last_n n r = []"
    using cap ln[OF assms(2)] cnt by (auto simp: contents_append_zero)
  show ?thesis using cap cnt all ln[OF assms(2)] len ge zero by blast
qed

text \<open>Four payloads appended to a ring of capacity 3: the oldest is overwritten.\<close>

theorem ring_last_spec_witness:
  "(0::int) \<le> 2
   \<and> last_n 2 (appends [''a'', ''b'', ''c'', ''d''] (new_RingBuffer 3)) = [''c'', ''d'']
   \<and> last_n 3 (appends [''a'', ''b'', ''c'', ''d''] (new_RingBuffer 3)) = [''b'', ''c'', ''d'']
   \<and> count (appends [''a'', ''b'', ''c'', ''d''] (new_RingBuffer 3)) = 3"
  using ring_last_spec[OF refl, of 2 "[''a'', ''b'', ''c'', ''d'']" 3]
        ring_last_spec[OF refl, of 3 "[''a'', ''b'', ''c'', ''d'']" 3]
  by simp

section \<open>Maps, flush, replay and fan-out\<close>

subsection \<open>Map\<close>

lemma Map_get_set_same: "Map_get (Map_set m k v) k = Some v"
  by (induction m) auto

lemma Map_get_set_other: "k' \<noteq> k \<Longrightarrow> Map_get (Map_set m k v) k' = Map_get m k'"
  by (induction m) auto

lemma Map_set_set: "Map_set (Map_set m k v) k w = Map_set m k w"
  by (induction m) auto

lemma Map_has_iff: "Map_has m k \<longleftrightarrow> k \<in> set (map fst m)"
  unfolding Map_has_def by (induction m) auto

lemma Map_get_in: "Map_get m k = Some v \<Longrightarrow> (k, v) \<in> set m"
  by (induction m) (auto split: if_splits)

lemma Map_get_distinct: "distinct (map fst m) \<Longrightarrow> (k, v) \<in> set m \<Longrightarrow> Map_get m k = Some v"
  by (induction m) (auto simp: rev_image_eqI)

lemma Map_delete_set: "Map_delete (Map_set m k v) k = Map_delete m k"
  unfolding Map_delete_def by (induction m) auto

lemma Map_delete_absent: "\<not> Map_has m k \<Longrightarrow> Map_delete m k = m"
  unfolding Map_delete_def Map_has_iff by (induction m) auto

lemma Map_get_delete_same: "Map_get (Map_delete m k) k = None"
  unfolding Map_delete_def by (induction m) auto

lemma Map_get_delete_other: "k' \<noteq> k \<Longrightarrow> Map_get (Map_delete m k) k' = Map_get m k'"
  unfolding Map_delete_def by (induction m) auto

lemma Map_set_keys: "map fst (Map_set m k v) = (if Map_has m k then map fst m else map fst m @ [k])"
  unfolding Map_has_def by (induction m) auto

lemma Map_set_distinct: "distinct (map fst m) \<Longrightarrow> distinct (map fst (Map_set m k v))"
  by (simp add: Map_set_keys Map_has_iff)

lemma Map_delete_distinct: "distinct (map fst m) \<Longrightarrow> distinct (map fst (Map_delete m k))"
  unfolding Map_delete_def by (simp add: distinct_map_filter)

lemma list_all_Map_set: "list_all P m \<Longrightarrow> P (k, v) \<Longrightarrow> list_all P (Map_set m k v)"
  by (induction m) auto

lemma list_all_Map_set_snd:
  "list_all (\<lambda>p. P (snd p)) m \<Longrightarrow> P v \<Longrightarrow> list_all (\<lambda>p. P (snd p)) (Map_set m k v)"
  by (induction m) auto

lemma list_all_Map_delete: "list_all P m \<Longrightarrow> list_all P (Map_delete m k)"
  unfolding Map_delete_def by (induction m) auto

lemma list_all_Map_get: "list_all (\<lambda>p. P (snd p)) m \<Longrightarrow> Map_get m k = Some v \<Longrightarrow> P v"
  by (induction m) (auto split: if_splits)

subsection \<open>flush\<close>

lemma flush_loop_sent: "snd (flush_loop now s evs acc) = snd acc @ map (event_of now s) evs"
  by (induction evs arbitrary: acc) (simp_all add: event_of_def)

lemma flush_loop_stats:
  "delivered (fst (flush_loop now s evs acc)) = delivered (fst acc) + length evs
   \<and> dropped (fst (flush_loop now s evs acc)) = dropped (fst acc)
   \<and> messages (fst (flush_loop now s evs acc)) = messages (fst acc)
   \<and> stat_subscribers (fst (flush_loop now s evs acc)) = stat_subscribers (fst acc)"
  by (induction evs arbitrary: acc) simp_all

lemma eaf_sent:
  "\<exists>evs. snd (snd (enqueue_and_flush now t m sub acc)) = snd acc @ map (event_of now (socket sub)) evs"
  unfolding enqueue_and_flush_def flush_def Let_def
  by (auto simp: flush_loop_sent)

lemma eaf_empty:
  assumes "items (queue sub) = []"
  shows "fst (enqueue_and_flush now t m sub acc) = sub"
    and "snd (snd (enqueue_and_flush now t m sub acc))
           = snd acc @ [Emit (socket sub) (EventMessage None (Some now) t m)]"
    and "delivered (fst (snd (enqueue_and_flush now t m sub acc))) = delivered (fst acc) + 1"
    and "dropped (fst (snd (enqueue_and_flush now t m sub acc)))
           = dropped (fst acc) + (if capacity (queue sub) = 0 then 1 else 0)"
    and "messages (fst (snd (enqueue_and_flush now t m sub acc))) = messages (fst acc)"
    and "stat_subscribers (fst (snd (enqueue_and_flush now t m sub acc))) = stat_subscribers (fst acc)"
  using assms
  unfolding enqueue_and_flush_def flush_def Let_def pushDropOldest_def drain_def
  by (simp_all add: flush_loop_sent flush_loop_stats event_of_def)

lemma is_event_at_event_of: "list_all (is_event_at now) (map (event_of now s) evs)"
  by (induction evs) (simp_all add: event_of_def)

lemma is_event_at_stamped: "is_event_at now e \<Longrightarrow> stamped now e"
  by (induction now e rule: is_event_at.induct) simp_all

lemma is_event_at_echo: "is_event_at now e \<Longrightarrow> reply_echoes r e"
  by (induction now e rule: is_event_at.induct) simp_all

lemma is_event_at_no_rid: "is_event_at now e \<Longrightarrow> no_request_id e"
  by (induction now e rule: is_event_at.induct) simp_all

lemma eaf_events:
  "\<exists>ext. snd (snd (enqueue_and_flush now t m sub acc)) = snd acc @ ext \<and> list_all (is_event_at now) ext"
  using eaf_sent[of now t m sub acc] is_event_at_event_of by metis

subsection \<open>replay\<close>

lemma replay_events:
  "\<exists>ext. snd (snd (replay now t ms acc)) = snd (snd acc) @ ext \<and> list_all (is_event_at now) ext"
proof (induction ms arbitrary: acc)
  case Nil
  show ?case by simp
next
  case (Cons m ms)
  obtain e1 where e1: "snd (snd (enqueue_and_flush now t m (fst acc) (snd acc))) = snd (snd acc) @ e1"
      "list_all (is_event_at now) e1"
    using eaf_events by blast
  obtain e2 where e2: "snd (snd (replay now t ms (enqueue_and_flush now t m (fst acc) (snd acc))))
       = snd (snd (enqueue_and_flush now t m (fst acc) (snd acc))) @ e2" "list_all (is_event_at now) e2"
    using Cons.IH by blast
  show ?case
    using e1 e2 by (intro exI[of _ "e1 @ e2"]) simp
qed

lemma replay_empty:
  assumes "items (queue sub) = []"
  shows "fst (replay now t ms (sub, st, out)) = sub
       \<and> snd (snd (replay now t ms (sub, st, out)))
           = out @ map (\<lambda>m. Emit (socket sub) (EventMessage None (Some now) t m)) ms
       \<and> delivered (fst (snd (replay now t ms (sub, st, out)))) = delivered st + length ms
       \<and> dropped (fst (snd (replay now t ms (sub, st, out))))
           = dropped st + (if capacity (queue sub) = 0 then length ms else 0)
       \<and> messages (fst (snd (replay now t ms (sub, st, out)))) = messages st
       \<and> stat_subscribers (fst (snd (replay now t ms (sub, st, out)))) = stat_subscribers st"
  using assms
proof (induction ms arbitrary: st out)
  case Nil
  show ?case by simp
next
  case (Cons m ms)
  let ?r = "enqueue_and_flush now t m sub (st, out)"
  have r: "?r = (sub, fst (snd ?r), snd (snd ?r))"
    using eaf_empty(1)[OF Cons.prems, of now t m "(st, out)"] by (metis prod.collapse)
  have "replay now t (m # ms) (sub, st, out) = replay now t ms (sub, fst (snd ?r), snd (snd ?r))"
    using r by simp
  then show ?case
    using Cons.IH[OF Cons.prems, of "fst (snd ?r)" "snd (snd ?r)"]
          eaf_empty(2-6)[OF Cons.prems, of now t m "(st, out)"]
    by simp
qed

subsection \<open>fan_out\<close>

lemma fan_out_keys: "map fst (fst (fan_out now t m subs acc)) = map fst subs"
  by (induction subs arbitrary: acc) (simp_all add: Let_def)

lemma fan_out_events:
  "\<exists>ext. snd (snd (fan_out now t m subs acc)) = snd acc @ ext \<and> list_all (is_event_at now) ext"
proof (induction subs arbitrary: acc)
  case Nil
  show ?case by simp
next
  case (Cons p ps)
  let ?r1 = "enqueue_and_flush now t m (snd p) acc"
  obtain e1 where e1: "snd (snd ?r1) = snd acc @ e1" "list_all (is_event_at now) e1"
    using eaf_events by blast
  obtain e2 where e2: "snd (snd (fan_out now t m ps (snd ?r1))) = snd (snd ?r1) @ e2"
      "list_all (is_event_at now) e2"
    using Cons.IH by blast
  show ?case
    using e1 e2 by (intro exI[of _ "e1 @ e2"]) (simp add: Let_def)
qed

lemma fan_out_ok:
  assumes "list_all (sub_ok Q) subs"
  shows "fst (fan_out now t m subs (st, out)) = subs
       \<and> snd (snd (fan_out now t m subs (st, out)))
           = out @ map (\<lambda>p. Emit (fst p) (EventMessage None (Some now) t m)) subs
       \<and> delivered (fst (snd (fan_out now t m subs (st, out)))) = delivered st + length subs
       \<and> dropped (fst (snd (fan_out now t m subs (st, out))))
           = dropped st + (if Q = 0 then length subs else 0)
       \<and> messages (fst (snd (fan_out now t m subs (st, out)))) = messages st
       \<and> stat_subscribers (fst (snd (fan_out now t m subs (st, out)))) = stat_subscribers st"
  using assms
proof (induction subs arbitrary: st out)
  case Nil
  show ?case by simp
next
  case (Cons p ps)
  have p: "items (queue (snd p)) = []" "socket (snd p) = fst p" "capacity (queue (snd p)) = Q"
    using Cons.prems by (simp_all add: sub_ok_def)
  have ps: "list_all (sub_ok Q) ps" using Cons.prems by simp
  obtain st1 out1 where r: "enqueue_and_flush now t m (snd p) (st, out) = (snd p, st1, out1)"
    using eaf_empty(1)[OF p(1), of now t m "(st, out)"] by (metis prod.collapse)
  have e: "out1 = out @ [Emit (fst p) (EventMessage None (Some now) t m)]"
      "delivered st1 = delivered st + 1"
      "dropped st1 = dropped st + (if Q = 0 then 1 else 0)"
      "messages st1 = messages st" "stat_subscribers st1 = stat_subscribers st"
    using eaf_empty(2-6)[OF p(1), of now t m "(st, out)"] p(2,3) r by simp_all
  show ?case
    using Cons.IH[OF ps, of st1 out1] e by (simp add: Let_def r)
qed

section \<open>The operations, case by case\<close>

subsection \<open>deleteTopic\<close>

lemma notify_fold:
  "foldl (notify info) b subs = b\<lparr>sent := sent b @ notices info subs\<rparr>"
  by (induction subs arbitrary: b)
     (simp_all add: notices_def notify_def socket_emit_def socket_disconnect_def)

lemma deleteTopic_found:
  assumes "Map_get (topics b) nm = Some tp"
  shows "deleteTopic now nm b =
           (Inr (), b\<lparr>topics := Map_delete (topics b) nm,
                       sent := sent b @ notices (topic_deleted_info now nm) (subscribers tp)\<rparr>)"
  using assms by (simp add: deleteTopic_def notify_fold)

lemma deleteTopic_absent:
  "Map_get (topics b) nm = None \<Longrightarrow> deleteTopic now nm b = (Inl notFound, b)"
  by (simp add: deleteTopic_def)

subsection \<open>subscribe\<close>

lemma toSend_Nil: "toSend None r = []"
  by (simp add: toSend_def)

lemma subscribe_absent:
  "Map_get (topics b) t = None \<Longrightarrow>
   subscribe now s t cid lastN r b =
     b\<lparr>sent := sent b @ [Emit s (ErrorMessage (truthy r) (Some now) TOPIC_NOT_FOUND (not_found_text t))]\<rparr>"
  by (simp add: subscribe_def socket_emit_def)

lemma subscribe_found:
  assumes "Map_get (topics b) t = Some tp"
  obtains ST where
    "subscribe now s t cid lastN r b =
       b\<lparr>topics := Map_set (topics b) t
            (tp\<lparr>subscribers := Map_set (subscribers tp) s
                    \<lparr>socket = s, clientId = cid, queue = new_BoundedQueue (subscriberQueueSize (opts b))\<rparr>,
                stats := ST\<rparr>),
         sent := sent b @ Emit s (AckMessage (truthy r) (Some now) (Some t))
                   # map (\<lambda>m. Emit s (EventMessage None (Some now) t m)) (toSend lastN (ring tp))\<rparr>"
    "delivered ST = delivered (stats tp) + length (toSend lastN (ring tp))"
    "dropped ST = dropped (stats tp)
        + (if subscriberQueueSize (opts b) = 0 then length (toSend lastN (ring tp)) else 0)"
    "messages ST = messages (stats tp)"
    "stat_subscribers ST = Map_size (Map_set (subscribers tp) s
        \<lparr>socket = s, clientId = cid, queue = new_BoundedQueue (subscriberQueueSize (opts b))\<rparr>)"
proof -
  let ?sub = "\<lparr>socket = s, clientId = cid, queue = new_BoundedQueue (subscriberQueueSize (opts b))\<rparr>"
  let ?subs1 = "Map_set (subscribers tp) s ?sub"
  let ?st1 = "(stats tp)\<lparr>stat_subscribers := Map_size ?subs1\<rparr>"
  let ?out1 = "sent b @ [Emit s (AckMessage (truthy r) (Some now) (Some t))]"
  let ?rp = "replay now t (toSend lastN (ring tp)) (?sub, ?st1, ?out1)"
  have e: "items (queue ?sub) = []" by (simp add: new_BoundedQueue_def)
  note R = replay_empty[OF e, of now t "toSend lastN (ring tp)" ?st1 ?out1]
  have 1: "subscribe now s t cid lastN r b =
       b\<lparr>topics := Map_set (topics b) t (tp\<lparr>subscribers := Map_set (subscribers tp) s ?sub, stats := fst (snd ?rp)\<rparr>),
         sent := sent b @ Emit s (AckMessage (truthy r) (Some now) (Some t))
                   # map (\<lambda>m. Emit s (EventMessage None (Some now) t m)) (toSend lastN (ring tp))\<rparr>"
    using assms R by (simp add: subscribe_def Let_def Map_set_set)
  show thesis
    by (rule that[of "fst (snd ?rp)"]) (use 1 R in \<open>simp_all add: new_BoundedQueue_def\<close>)
qed

subsection \<open>unsubscribe\<close>

lemma unsubscribe_absent:
  "Map_get (topics b) t = None \<Longrightarrow>
   unsubscribe now s t cid r b =
     b\<lparr>sent := sent b @ [Emit s (ErrorMessage (truthy r) (Some now) TOPIC_NOT_FOUND (not_found_text t))]\<rparr>"
  by (simp add: unsubscribe_def socket_emit_def)

lemma unsubscribe_found:
  "Map_get (topics b) t = Some tp \<Longrightarrow>
   unsubscribe now s t cid r b =
     b\<lparr>topics := Map_set (topics b) t
          (tp\<lparr>subscribers := Map_delete (subscribers tp) s,
              stats := (stats tp)\<lparr>stat_subscribers := Map_size (Map_delete (subscribers tp) s)\<rparr>\<rparr>),
       sent := sent b @ [Emit s (AckMessage (truthy r) (Some now) (Some t))]\<rparr>"
  by (simp add: unsubscribe_def socket_emit_def Let_def)

subsection \<open>publish\<close>

lemma publish_absent:
  "Map_get (topics b) t = None \<Longrightarrow> publish now t m r b = (Inl notFound, b)"
  by (simp add: publish_def)

lemma publish_found_events:
  assumes "Map_get (topics b) t = Some tp"
  shows "fst (publish now t m r b) = Inr now"
    and "opts (snd (publish now t m r b)) = opts b"
    and "\<exists>ext. sent (snd (publish now t m r b)) = sent b @ ext \<and> list_all (is_event_at now) ext"
  using assms fan_out_events[of now t m "subscribers tp" "((stats tp)\<lparr>messages := messages (stats tp) + 1\<rparr>, sent b)"]
  by (simp_all add: publish_def Let_def)

lemma publish_ok:
  assumes "Map_get (topics b) t = Some tp" and "topic_ok (subscriberQueueSize (opts b)) tp"
  obtains ST where
    "publish now t m r b =
       (Inr now,
        b\<lparr>topics := Map_set (topics b) t (tp\<lparr>ring := append_ring m (ring tp), stats := ST\<rparr>),
          sent := sent b @ map (\<lambda>p. Emit (fst p) (EventMessage None (Some now) t m)) (subscribers tp)\<rparr>)"
    "messages ST = messages (stats tp) + 1"
    "delivered ST = delivered (stats tp) + length (subscribers tp)"
    "dropped ST = dropped (stats tp)
        + (if subscriberQueueSize (opts b) = 0 then length (subscribers tp) else 0)"
    "stat_subscribers ST = stat_subscribers (stats tp)"
proof -
  let ?st1 = "(stats tp)\<lparr>messages := messages (stats tp) + 1\<rparr>"
  let ?fo = "fan_out now t m (subscribers tp) (?st1, sent b)"
  have ok: "list_all (sub_ok (subscriberQueueSize (opts b))) (subscribers tp)"
    using assms(2) by (simp add: topic_ok_def)
  note F = fan_out_ok[OF ok, of now t m ?st1 "sent b"]
  have 1: "publish now t m r b =
       (Inr now,
        b\<lparr>topics := Map_set (topics b) t (tp\<lparr>ring := append_ring m (ring tp), stats := fst (snd ?fo)\<rparr>),
          sent := sent b @ map (\<lambda>p. Emit (fst p) (EventMessage None (Some now) t m)) (subscribers tp)\<rparr>)"
    using assms(1) F by (simp add: publish_def Let_def)
  show thesis
    by (rule that[of "fst (snd ?fo)"]) (use 1 F in simp_all)
qed

subsection \<open>handleSocketDisconnect\<close>

lemma drop_socket_ok: "topic_ok Q tp \<Longrightarrow> topic_ok Q (drop_socket s tp)"
  by (simp add: drop_socket_def topic_ok_def Let_def list_all_Map_delete Map_delete_distinct)

section \<open>Runs\<close>

subsection \<open>Every operation keeps the options and only adds to the log\<close>

lemma createTopic_frame:
  "opts (snd (createTopic nm b)) = opts b" "sent (snd (createTopic nm b)) = sent b"
  by (simp_all add: createTopic_def)

lemma handleSocketDisconnect_frame:
  "opts (handleSocketDisconnect s b) = opts b" "sent (handleSocketDisconnect s b) = sent b"
  by (simp_all add: handleSocketDisconnect_def)

lemma apply_op_opts: "opts (apply_op b op) = opts b"
proof (induction b op rule: apply_op.induct)
  case (1 b now nm)
  show ?case by (simp add: createTopic_frame)
next
  case (2 b now nm)
  show ?case
    by (cases "Map_get (topics b) nm") (simp_all add: deleteTopic_absent deleteTopic_found)
next
  case (3 b now s tpc cid lastN r)
  show ?case
  proof (cases "Map_get (topics b) tpc")
    case None
    then show ?thesis by (simp add: subscribe_absent)
  next
    case (Some tp)
    from subscribe_found[OF Some, of now s cid lastN r] obtain ST where
      "subscribe now s tpc cid lastN r b =
       b\<lparr>topics := Map_set (topics b) tpc
            (tp\<lparr>subscribers := Map_set (subscribers tp) s
                    \<lparr>socket = s, clientId = cid, queue = new_BoundedQueue (subscriberQueueSize (opts b))\<rparr>,
                stats := ST\<rparr>),
         sent := sent b @ Emit s (AckMessage (truthy r) (Some now) (Some tpc))
                   # map (\<lambda>m. Emit s (EventMessage None (Some now) tpc m)) (toSend lastN (ring tp))\<rparr>"
      by blast
    then show ?thesis by simp
  qed
next
  case (4 b now s tpc cid r)
  show ?case
    by (cases "Map_get (topics b) tpc") (simp_all add: unsubscribe_absent unsubscribe_found)
next
  case (5 b now tpc m r)
  show ?case
    by (cases "Map_get (topics b) tpc") (simp_all add: publish_absent publish_found_events)
next
  case (6 b now s)
  show ?case by (simp add: handleSocketDisconnect_frame)
qed

lemma run_opts: "opts (run ops b) = opts b"
  unfolding run_def by (induction ops arbitrary: b) (simp_all add: apply_op_opts)

lemma run_append: "run (xs @ ys) b = run ys (run xs b)"
  by (simp add: run_def)

lemma run_Cons: "run (x # xs) b = run xs (apply_op b x)"
  by (simp add: run_def)

lemma run_Nil: "run [] b = b"
  by (simp add: run_def)

lemma apply_op_sent: "\<exists>ext. sent (apply_op b op) = sent b @ ext"
proof (induction b op rule: apply_op.induct)
  case (1 b now nm)
  show ?case by (simp add: createTopic_frame)
next
  case (2 b now nm)
  show ?case
    by (cases "Map_get (topics b) nm") (simp_all add: deleteTopic_absent deleteTopic_found)
next
  case (3 b now s tpc cid lastN r)
  show ?case
  proof (cases "Map_get (topics b) tpc")
    case None
    then show ?thesis by (simp add: subscribe_absent)
  next
    case (Some tp)
    from subscribe_found[OF Some, of now s cid lastN r] obtain ST where
      "subscribe now s tpc cid lastN r b =
       b\<lparr>topics := Map_set (topics b) tpc
            (tp\<lparr>subscribers := Map_set (subscribers tp) s
                    \<lparr>socket = s, clientId = cid, queue = new_BoundedQueue (subscriberQueueSize (opts b))\<rparr>,
                stats := ST\<rparr>),
         sent := sent b @ Emit s (AckMessage (truthy r) (Some now) (Some tpc))
                   # map (\<lambda>m. Emit s (EventMessage None (Some now) tpc m)) (toSend lastN (ring tp))\<rparr>"
      by blast
    then show ?thesis by simp
  qed
next
  case (4 b now s tpc cid r)
  show ?case
    by (cases "Map_get (topics b) tpc") (simp_all add: unsubscribe_absent unsubscribe_found)
next
  case (5 b now tpc m r)
  show ?case
  proof (cases "Map_get (topics b) tpc")
    case None
    then show ?thesis by (simp add: publish_absent)
  next
    case (Some tp)
    then show ?thesis using publish_found_events(3)[OF Some, of now m r] by auto
  qed
next
  case (6 b now s)
  show ?case by (simp add: handleSocketDisconnect_frame)
qed

lemma run_sent: "\<exists>ext. sent (run ops b) = sent b @ ext"
proof (induction ops arbitrary: b)
  case Nil
  show ?case by (simp add: run_Nil)
next
  case (Cons op ops)
  obtain e1 where "sent (apply_op b op) = sent b @ e1" using apply_op_sent by blast
  moreover obtain e2 where "sent (run ops (apply_op b op)) = sent (apply_op b op) @ e2"
    using Cons.IH by blast
  ultimately show ?case by (simp add: run_Cons)
qed

subsection \<open>The shape of the tables is kept\<close>

lemma broker_ok_topic:
  "broker_ok b \<Longrightarrow> Map_get (topics b) t = Some tp \<Longrightarrow> topic_ok (subscriberQueueSize (opts b)) tp"
  unfolding broker_ok_def by (rule list_all_Map_get)

lemma broker_ok_set:
  assumes "broker_ok b" and "topic_ok (subscriberQueueSize (opts b)) tp'"
    and "opts b' = opts b" and "topics b' = Map_set (topics b) t tp'"
  shows "broker_ok b'"
  using assms unfolding broker_ok_def by (simp add: list_all_Map_set_snd)

lemma broker_ok_new: "broker_ok (new_InMemoryBroker os)"
  by (simp add: broker_ok_def new_InMemoryBroker_def)

lemma apply_op_ok: "broker_ok b \<Longrightarrow> broker_ok (apply_op b op)"
proof (induction b op rule: apply_op.induct)
  case (1 b now nm)
  show ?case
  proof (cases "Map_has (topics b) nm")
    case True
    then show ?thesis using 1 by (simp add: createTopic_def)
  next
    case False
    show ?thesis
      by (rule broker_ok_set[OF 1, where t = nm and tp' = "\<lparr>name = nm, subscribers = [],
                  ring = new_RingBuffer (ringBufferSize (opts b)),
                  stats = \<lparr>messages = 0, stat_subscribers = 0, delivered = 0, dropped = 0\<rparr>\<rparr>"])
         (use False in \<open>simp_all add: createTopic_def topic_ok_def\<close>)
  qed
next
  case (2 b now nm)
  show ?case
  proof (cases "Map_get (topics b) nm")
    case None
    then show ?thesis using 2 by (simp add: deleteTopic_absent)
  next
    case (Some tp)
    then show ?thesis
      using 2 by (simp add: deleteTopic_found broker_ok_def list_all_Map_delete)
  qed
next
  case (3 b now s tpc cid lastN r)
  show ?case
  proof (cases "Map_get (topics b) tpc")
    case None
    then show ?thesis using 3 by (simp add: subscribe_absent broker_ok_def)
  next
    case (Some tp)
    let ?Q = "subscriberQueueSize (opts b)"
    let ?sub = "\<lparr>socket = s, clientId = cid, queue = new_BoundedQueue ?Q\<rparr>"
    from subscribe_found[OF Some, of now s cid lastN r] obtain ST where
      eq: "subscribe now s tpc cid lastN r b =
       b\<lparr>topics := Map_set (topics b) tpc
            (tp\<lparr>subscribers := Map_set (subscribers tp) s ?sub, stats := ST\<rparr>),
         sent := sent b @ Emit s (AckMessage (truthy r) (Some now) (Some tpc))
                   # map (\<lambda>m. Emit s (EventMessage None (Some now) tpc m)) (toSend lastN (ring tp))\<rparr>"
      by blast
    have tp: "topic_ok ?Q tp" using 3 Some by (rule broker_ok_topic)
    have "sub_ok ?Q (s, ?sub)" by (simp add: sub_ok_def new_BoundedQueue_def)
    then have "topic_ok ?Q (tp\<lparr>subscribers := Map_set (subscribers tp) s ?sub, stats := ST\<rparr>)"
      using tp by (simp add: topic_ok_def list_all_Map_set Map_set_distinct)
    then show ?thesis
      using broker_ok_set[OF 3] eq by simp
  qed
next
  case (4 b now s tpc cid r)
  show ?case
  proof (cases "Map_get (topics b) tpc")
    case None
    then show ?thesis using 4 by (simp add: unsubscribe_absent broker_ok_def)
  next
    case (Some tp)
    let ?Q = "subscriberQueueSize (opts b)"
    have tp: "topic_ok ?Q tp" using 4 Some by (rule broker_ok_topic)
    then have "topic_ok ?Q (tp\<lparr>subscribers := Map_delete (subscribers tp) s,
              stats := (stats tp)\<lparr>stat_subscribers := Map_size (Map_delete (subscribers tp) s)\<rparr>\<rparr>)"
      by (simp add: topic_ok_def list_all_Map_delete Map_delete_distinct)
    then show ?thesis
      using broker_ok_set[OF 4] Some by (simp add: unsubscribe_found)
  qed
next
  case (5 b now tpc m r)
  show ?case
  proof (cases "Map_get (topics b) tpc")
    case None
    then show ?thesis using 5 by (simp add: publish_absent)
  next
    case (Some tp)
    let ?Q = "subscriberQueueSize (opts b)"
    have tp: "topic_ok ?Q tp" using 5 Some by (rule broker_ok_topic)
    from publish_ok[OF Some tp, of now m r] obtain ST where
      eq: "publish now tpc m r b =
       (Inr now,
        b\<lparr>topics := Map_set (topics b) tpc (tp\<lparr>ring := append_ring m (ring tp), stats := ST\<rparr>),
          sent := sent b @ map (\<lambda>p. Emit (fst p) (EventMessage None (Some now) tpc m)) (subscribers tp)\<rparr>)"
      by blast
    have "topic_ok ?Q (tp\<lparr>ring := append_ring m (ring tp), stats := ST\<rparr>)"
      using tp by (simp add: topic_ok_def)
    then show ?thesis
      using broker_ok_set[OF 5] eq by simp
  qed
next
  case (6 b now s)
  then show ?case
    by (simp add: handleSocketDisconnect_def broker_ok_def list_all_iff drop_socket_ok)
qed

lemma run_ok: "broker_ok b \<Longrightarrow> broker_ok (run ops b)"
  unfolding run_def by (induction ops arbitrary: b) (simp_all add: apply_op_ok)

lemma broker_ok_empty: "broker_ok b \<Longrightarrow> all_queues_empty b"
  unfolding broker_ok_def all_queues_empty_def topic_ok_def sub_ok_def queue_length_def
  by (auto simp: list_all_iff)

lemma broker_ok_bounded: "broker_ok b \<Longrightarrow> all_queues_bounded b"
  unfolding broker_ok_def all_queues_bounded_def topic_ok_def sub_ok_def queue_length_def
  by (auto simp: list_all_iff)

section \<open>Topic deletion\<close>

subsection \<open>deleteTopic, statement by statement\<close>

lemma notify_states_nonempty: "notify_states info subs b \<noteq> []"
  by (cases subs) simp_all

lemma notify_states_last: "last (notify_states info subs b) = foldl (notify info) b subs"
  by (induction subs arbitrary: b) (simp_all add: notify_states_nonempty)

lemma notify_topics: "topics (notify info b p) = topics b"
  by (simp add: notify_def socket_emit_def socket_disconnect_def)

lemma notify_states_topics: "list_all (\<lambda>s. topics s = topics b) (notify_states info subs b)"
proof (induction subs arbitrary: b)
  case Nil
  show ?case by simp
next
  case (Cons p ps)
  have "list_all (\<lambda>s. topics s = topics (notify info b p)) (notify_states info ps (notify info b p))"
    by (rule Cons.IH)
  then show ?case by (simp add: notify_topics socket_emit_def)
qed

lemma deleteTopic_states_last:
  "snd (deleteTopic now nm b) = last (deleteTopic_states now nm b)"
  by (cases "Map_get (topics b) nm")
     (simp_all add: deleteTopic_def deleteTopic_states_def Let_def notify_states_last)

lemma deleteTopic_states_butlast:
  assumes "Map_get (topics b) nm = Some tp"
  shows "butlast (deleteTopic_states now nm b) = notify_states (topic_deleted_info now nm) (subscribers tp) b"
  using assms by (simp add: deleteTopic_states_def Let_def)

text \<open>
  Claim C1, as the code has it. For a topic \<open>t\<close> of the registry, \<open>deleteTopic\<close> succeeds; for
  each subscriber of \<open>t\<close>, in the order of the table, it emits the \<open>topic_deleted\<close> notice on
  the subscriber's socket and disconnects that socket; the registry still holds \<open>t\<close> in every
  state before the last statement, that is while the notices are emitted; the last statement
  removes \<open>t\<close>, which is absent when \<open>deleteTopic\<close> returns.
\<close>

theorem deleteTopic_notifies_then_removes:
  assumes "Map_get (topics b) t = Some tp"
  shows "fst (deleteTopic now t b) = Inr ()
       \<and> snd (deleteTopic now t b) = last (deleteTopic_states now t b)
       \<and> emitted b (snd (deleteTopic now t b)) = notices (topic_deleted_info now t) (subscribers tp)
       \<and> list_all (\<lambda>s. Map_has (topics s) t) (butlast (deleteTopic_states now t b))
       \<and> topics (snd (deleteTopic now t b)) = Map_delete (topics b) t
       \<and> \<not> Map_has (topics (snd (deleteTopic now t b))) t"
proof -
  have has: "Map_has (topics b) t" using assms by (simp add: Map_has_def)
  have "list_all (\<lambda>s. topics s = topics b) (butlast (deleteTopic_states now t b))"
    using assms by (simp add: deleteTopic_states_butlast notify_states_topics)
  then have 1: "list_all (\<lambda>s. Map_has (topics s) t) (butlast (deleteTopic_states now t b))"
    using has by (simp add: list_all_iff)
  have 2: "snd (deleteTopic now t b) = last (deleteTopic_states now t b)"
    by (rule deleteTopic_states_last)
  have 3: "fst (deleteTopic now t b) = Inr ()"
      "emitted b (snd (deleteTopic now t b)) = notices (topic_deleted_info now t) (subscribers tp)"
      "topics (snd (deleteTopic now t b)) = Map_delete (topics b) t"
      "\<not> Map_has (topics (snd (deleteTopic now t b))) t"
    using assms by (simp_all add: deleteTopic_found emitted_def Map_has_def Map_get_delete_same)
  show ?thesis using 1 2 3 by blast
qed

lemma orders_topic:
  "Map_get (topics orders_broker) ''orders'' =
     Some \<lparr>name = ''orders'',
         subscribers =
           [(''c1'', \<lparr>socket = ''c1'', clientId = ''alice'', queue = \<lparr>items = [], capacity = 512\<rparr>\<rparr>)],
         ring = new_RingBuffer 100,
         stats = \<lparr>messages = 0, stat_subscribers = 1, delivered = 0, dropped = 0\<rparr>\<rparr>"
  by (simp add: orders_broker_def run_def createTopic_def subscribe_def new_InMemoryBroker_def Map_has_def
     toSend_def Map_size_def new_BoundedQueue_def truthy_def default_opts_def)

lemma orders_broker_eq:
  "orders_broker = \<lparr>topics =
    [(''orders'',
      \<lparr>name = ''orders'',
         subscribers =
           [(''c1'', \<lparr>socket = ''c1'', clientId = ''alice'', queue = \<lparr>items = [], capacity = 512\<rparr>\<rparr>)],
         ring = new_RingBuffer 100,
         stats = \<lparr>messages = 0, stat_subscribers = 1, delivered = 0, dropped = 0\<rparr>\<rparr>)],
    opts = default_opts,
    sent = [Emit ''c1'' (AckMessage None (Some ''t1'') (Some ''orders''))]\<rparr>"
  by (simp add: orders_broker_def run_def createTopic_def subscribe_def new_InMemoryBroker_def Map_has_def
     toSend_def Map_size_def new_BoundedQueue_def truthy_def default_opts_def)

theorem deleteTopic_notifies_then_removes_witness:
  "Map_get (topics orders_broker) ''orders'' \<noteq> None
   \<and> fst (deleteTopic ''t9'' ''orders'' orders_broker) = Inr ()
   \<and> emitted orders_broker (snd (deleteTopic ''t9'' ''orders'' orders_broker))
       = [Emit ''c1'' (InfoMessage None (Some ''t9'') (Some ''orders'') ''topic_deleted''), Disconnect ''c1'']
   \<and> topics (snd (deleteTopic ''t9'' ''orders'' orders_broker)) = []"
proof -
  note T = deleteTopic_notifies_then_removes[OF orders_topic, of "''t9''"]
  have 1: "Map_get (topics orders_broker) ''orders'' \<noteq> None"
    using orders_topic by simp
  have 2: "fst (deleteTopic ''t9'' ''orders'' orders_broker) = Inr ()"
    using T by blast
  have 3: "emitted orders_broker (snd (deleteTopic ''t9'' ''orders'' orders_broker))
       = [Emit ''c1'' (InfoMessage None (Some ''t9'') (Some ''orders'') ''topic_deleted''), Disconnect ''c1'']"
    using T[THEN conjunct2, THEN conjunct2, THEN conjunct1]
    by (simp add: notices_def topic_deleted_info_def)
  have "topics (snd (deleteTopic ''t9'' ''orders'' orders_broker)) = Map_delete (topics orders_broker) ''orders''"
    using T by blast
  also have "\<dots> = []"
    by (simp add: orders_broker_eq Map_delete_def)
  finally show ?thesis using 1 2 3 by blast
qed

text \<open>
  The order the claim gives (remove, then notify) is not the order of the code: after the first
  \<open>emit\<close> of a deletion with one subscriber, the log holds the notice and the registry still
  holds the topic.
\<close>

theorem deleteTopic_notice_before_removal:
  "sent (deleteTopic_states ''t9'' ''orders'' orders_broker ! 1)
     = sent orders_broker @ [Emit ''c1'' (InfoMessage None (Some ''t9'') (Some ''orders'') ''topic_deleted'')]
   \<and> Map_has (topics (deleteTopic_states ''t9'' ''orders'' orders_broker ! 1)) ''orders''
   \<and> \<not> Map_has (topics (snd (deleteTopic ''t9'' ''orders'' orders_broker))) ''orders''"
  by (simp add: orders_broker_eq deleteTopic_states_def deleteTopic_def topic_deleted_info_def
        socket_emit_def socket_disconnect_def notify_def Map_has_def Map_delete_def)

section \<open>Queues\<close>

lemma push_on_empty: "items q = [] \<Longrightarrow> queue_length (snd (pushDropOldest ev q)) = 1"
  by (simp add: pushDropOldest_def queue_length_def)

text \<open>
  Claim C3. After any sequence of broker operations on a new broker, every subscriber queue of
  every topic is empty. The step behind it: on an empty queue one \<open>pushDropOldest\<close> leaves one
  item, and the \<open>flush\<close> that follows it in \<open>subscribe\<close> and \<open>publish\<close> leaves none.
\<close>

theorem queues_empty_after_every_operation:
  "all_queues_empty (run ops (new_InMemoryBroker os))
   \<and> (queue_length (queue sub) = 0 \<longrightarrow>
        queue_length (snd (pushDropOldest \<lparr>topic = t, message = m\<rparr> (queue sub))) = 1
        \<and> queue_length (queue (fst (enqueue_and_flush now t m sub acc))) = 0)"
proof -
  have "broker_ok (run ops (new_InMemoryBroker os))"
    by (rule run_ok) (rule broker_ok_new)
  then have 1: "all_queues_empty (run ops (new_InMemoryBroker os))"
    by (rule broker_ok_empty)
  have 2: "queue_length (snd (pushDropOldest \<lparr>topic = t, message = m\<rparr> (queue sub))) = 1
        \<and> queue_length (queue (fst (enqueue_and_flush now t m sub acc))) = 0"
    if "queue_length (queue sub) = 0"
  proof -
    have e: "items (queue sub) = []" using that by (simp add: queue_length_def)
    show ?thesis
      using push_on_empty[OF e] eaf_empty(1)[OF e, of now t m acc] that by simp
  qed
  show ?thesis using 1 2 by blast
qed

theorem queues_empty_after_every_operation_witness:
  "all_queues_empty (run three_ops (new_InMemoryBroker default_opts))
   \<and> queue_length (new_BoundedQueue 512 :: QueuedEvent BoundedQueue) = 0
   \<and> queue_length (queue (fst (enqueue_and_flush ''t2'' ''orders'' (PublishPayload ''m0'' ''{}'')
        \<lparr>socket = ''c1'', clientId = ''alice'', queue = new_BoundedQueue 512\<rparr>
        (\<lparr>messages = 1, stat_subscribers = 1, delivered = 0, dropped = 0\<rparr>, [])))) = 0"
  using queues_empty_after_every_operation[of three_ops default_opts
          "\<lparr>socket = ''c1'', clientId = ''alice'', queue = new_BoundedQueue 512\<rparr>"
          "''orders''" "PublishPayload ''m0'' ''{}''" "''t2''"
          "(\<lparr>messages = 1, stat_subscribers = 1, delivered = 0, dropped = 0\<rparr>, [])"]
  by (simp add: queue_length_def new_BoundedQueue_def)

text \<open>
  Claim C4, amended. After any sequence of broker operations on a new broker with any queue size
  \<open>Q \<ge> 0\<close>, every subscriber queue has capacity \<open>Q\<close> and a length in \<open>[0, Q]\<close>. For a queue
  of capacity at least 1 whose length equals its capacity, a push discards the head, appends the
  new element, reports \<open>dropped = 1\<close> and keeps the length; for a queue whose length is below its
  capacity, a push appends the new element and reports \<open>dropped = 0\<close>.
\<close>

theorem queue_bounds_and_push:
  "all_queues_bounded (run ops (new_InMemoryBroker os))
   \<and> (1 \<le> capacity q \<and> queue_length q = capacity q \<longrightarrow>
        (\<exists>h rest. items q = h # rest \<and> pushDropOldest x q = (1, q\<lparr>items := rest @ [x]\<rparr>))
        \<and> queue_length (snd (pushDropOldest x q)) = capacity q)
   \<and> (queue_length q < capacity q \<longrightarrow>
        pushDropOldest x q = (0, q\<lparr>items := items q @ [x]\<rparr>)
        \<and> queue_length (snd (pushDropOldest x q)) \<le> capacity q)"
proof -
  have "broker_ok (run ops (new_InMemoryBroker os))"
    by (rule run_ok) (rule broker_ok_new)
  then have 1: "all_queues_bounded (run ops (new_InMemoryBroker os))"
    by (rule broker_ok_bounded)
  have 2: "(\<exists>h rest. items q = h # rest \<and> pushDropOldest x q = (1, q\<lparr>items := rest @ [x]\<rparr>))
        \<and> queue_length (snd (pushDropOldest x q)) = capacity q"
    if "1 \<le> capacity q \<and> queue_length q = capacity q"
  proof -
    have "items q \<noteq> []" using that by (auto simp: queue_length_def)
    then obtain h rest where hr: "items q = h # rest"
      by (cases "items q") simp_all
    show ?thesis
      using that hr by (simp add: pushDropOldest_def queue_length_def)
  qed
  have 3: "pushDropOldest x q = (0, q\<lparr>items := items q @ [x]\<rparr>)
        \<and> queue_length (snd (pushDropOldest x q)) \<le> capacity q"
    if "queue_length q < capacity q"
    using that by (simp add: pushDropOldest_def queue_length_def)
  show ?thesis using 1 2 3 by blast
qed

theorem queue_bounds_and_push_witness:
  "all_queues_bounded (run three_ops (new_InMemoryBroker default_opts))
   \<and> pushDropOldest (3::nat) \<lparr>items = [1, 2], capacity = 2\<rparr> = (1, \<lparr>items = [2, 3], capacity = 2\<rparr>)
   \<and> pushDropOldest (3::nat) \<lparr>items = [1], capacity = 2\<rparr> = (0, \<lparr>items = [1, 3], capacity = 2\<rparr>)"
  using queue_bounds_and_push[of three_ops default_opts "\<lparr>items = [1, 2], capacity = 2\<rparr>" "3::nat"]
        queue_bounds_and_push[of three_ops default_opts "\<lparr>items = [1], capacity = 2\<rparr>" "3::nat"]
  by (simp add: queue_length_def)

text \<open>
  With capacity 0 the empty queue has length equal to its capacity, and a push reports
  \<open>dropped = 1\<close> although there is no head to discard; the queue then holds one element.
\<close>

theorem push_on_capacity_zero:
  "queue_length (new_BoundedQueue 0 :: QueuedEvent BoundedQueue) = capacity (new_BoundedQueue 0 :: QueuedEvent BoundedQueue)
   \<and> items (new_BoundedQueue 0 :: QueuedEvent BoundedQueue) = []
   \<and> pushDropOldest \<lparr>topic = ''orders'', message = PublishPayload ''m0'' ''{}''\<rparr> (new_BoundedQueue 0)
       = (1, \<lparr>items = [\<lparr>topic = ''orders'', message = PublishPayload ''m0'' ''{}''\<rparr>], capacity = 0\<rparr>)"
  by (simp add: new_BoundedQueue_def pushDropOldest_def queue_length_def)

section \<open>Publishing to a missing topic; subscribing and unsubscribing\<close>

lemma getStats_topics: "topics b' = topics b \<Longrightarrow> getStats b' = getStats b"
  by (simp add: getStats_def)

text \<open>
  Claim C9. A publish to a topic that is not in the registry returns the not-found indicator and
  leaves the broker as it was; the session then emits a \<open>TOPIC_NOT_FOUND\<close> error envelope to the
  publisher, which adds that envelope to the log and changes nothing else: the registry, with
  every counter, ring and queue in it, and the stats are the same.
\<close>

theorem publish_to_missing_topic:
  assumes "\<not> Map_has (topics b) t"
  shows "publish now t m r b = (Inl notFound, b)
       \<and> on_message now s (PublishMessage r t m) b
           = b\<lparr>sent := sent b @ [Emit s (ErrorMessage r (Some now) TOPIC_NOT_FOUND (not_found_text t))]\<rparr>
       \<and> topics (on_message now s (PublishMessage r t m) b) = topics b
       \<and> getStats (on_message now s (PublishMessage r t m) b) = getStats b"
proof -
  have n: "Map_get (topics b) t = None" using assms by (simp add: Map_has_def)
  have 1: "publish now t m r b = (Inl notFound, b)" using n by (rule publish_absent)
  have 2: "on_message now s (PublishMessage r t m) b
           = b\<lparr>sent := sent b @ [Emit s (ErrorMessage r (Some now) TOPIC_NOT_FOUND (not_found_text t))]\<rparr>"
    by (simp add: on_message_def 1 socket_emit_def)
  have 3: "topics (on_message now s (PublishMessage r t m) b) = topics b"
    by (simp add: 2)
  show ?thesis using 1 2 3 getStats_topics[OF 3] by blast
qed

theorem publish_to_missing_topic_witness:
  "\<not> Map_has (topics orders_broker) ''missing''
   \<and> publish ''t2'' ''missing'' (PublishPayload ''x'' ''{}'') (Some ''ee'') orders_broker
       = (Inl notFound, orders_broker)
   \<and> emitted orders_broker
        (on_message ''t2'' ''p1'' (PublishMessage (Some ''ee'') ''missing'' (PublishPayload ''x'' ''{}'')) orders_broker)
       = [Emit ''p1'' (ErrorMessage (Some ''ee'') (Some ''t2'') TOPIC_NOT_FOUND ''topic missing not found'')]"
proof -
  have h: "\<not> Map_has (topics orders_broker) ''missing''"
    by (simp add: orders_broker_eq Map_has_def)
  note T = publish_to_missing_topic[OF h, of "''t2''" "PublishPayload ''x'' ''{}''" "Some ''ee''" "''p1''"]
  have "on_message ''t2'' ''p1'' (PublishMessage (Some ''ee'') ''missing'' (PublishPayload ''x'' ''{}'')) orders_broker
         = orders_broker\<lparr>sent := sent orders_broker @
             [Emit ''p1'' (ErrorMessage (Some ''ee'') (Some ''t2'') TOPIC_NOT_FOUND (not_found_text ''missing''))]\<rparr>"
    using T by blast
  then have "emitted orders_broker
        (on_message ''t2'' ''p1'' (PublishMessage (Some ''ee'') ''missing'' (PublishPayload ''x'' ''{}'')) orders_broker)
       = [Emit ''p1'' (ErrorMessage (Some ''ee'') (Some ''t2'') TOPIC_NOT_FOUND ''topic missing not found'')]"
    by (simp add: emitted_def not_found_text_def)
  then show ?thesis using h T by blast
qed

text \<open>
  Claim C8, amended. For a topic \<open>t\<close> of the registry and a connection \<open>c\<close> that is not in the
  subscriber table of \<open>t\<close>, \<open>subscribe(c, t, client_id)\<close> followed by \<open>unsubscribe(c, t)\<close>
  leaves the subscriber table of \<open>t\<close> exactly as it was before the subscribe.
\<close>

theorem subscribe_then_unsubscribe:
  assumes "Map_get (topics b) t = Some tp" and "\<not> Map_has (subscribers tp) c"
  shows "map_option subscribers
           (Map_get (topics (unsubscribe now2 c t cid2 r2 (subscribe now1 c t cid lastN r1 b))) t)
         = Some (subscribers tp)"
proof -
  let ?sub = "\<lparr>socket = c, clientId = cid, queue = new_BoundedQueue (subscriberQueueSize (opts b))\<rparr>"
  from subscribe_found[OF assms(1), of now1 c cid lastN r1] obtain ST where
    eq: "subscribe now1 c t cid lastN r1 b =
       b\<lparr>topics := Map_set (topics b) t
            (tp\<lparr>subscribers := Map_set (subscribers tp) c ?sub, stats := ST\<rparr>),
         sent := sent b @ Emit c (AckMessage (truthy r1) (Some now1) (Some t))
                   # map (\<lambda>m. Emit c (EventMessage None (Some now1) t m)) (toSend lastN (ring tp))\<rparr>"
    by blast
  let ?b1 = "subscribe now1 c t cid lastN r1 b"
  let ?tp1 = "tp\<lparr>subscribers := Map_set (subscribers tp) c ?sub, stats := ST\<rparr>"
  have g: "Map_get (topics ?b1) t = Some ?tp1"
    by (simp add: eq Map_get_set_same)
  have "Map_delete (subscribers ?tp1) c = subscribers tp"
    using assms(2) by (simp add: Map_delete_set Map_delete_absent)
  then show ?thesis
    by (simp add: unsubscribe_found[OF g] Map_get_set_same)
qed

theorem subscribe_then_unsubscribe_witness:
  "Map_get (topics orders_broker) ''orders'' \<noteq> None
   \<and> map_option subscribers (Map_get (topics orders_broker) ''orders'')
       = Some [(''c1'', \<lparr>socket = ''c1'', clientId = ''alice'', queue = \<lparr>items = [], capacity = 512\<rparr>\<rparr>)]
   \<and> map_option subscribers
        (Map_get (topics (unsubscribe ''t3'' ''c2'' ''orders'' ''bob'' None
                            (subscribe ''t2'' ''c2'' ''orders'' ''bob'' (Some 2) None orders_broker))) ''orders'')
       = Some [(''c1'', \<lparr>socket = ''c1'', clientId = ''alice'', queue = \<lparr>items = [], capacity = 512\<rparr>\<rparr>)]"
proof -
  have h: "\<not> Map_has (subscribers \<lparr>name = ''orders'',
         subscribers =
           [(''c1'', \<lparr>socket = ''c1'', clientId = ''alice'', queue = \<lparr>items = [], capacity = 512\<rparr>\<rparr>)],
         ring = new_RingBuffer 100,
         stats = \<lparr>messages = 0, stat_subscribers = 1, delivered = 0, dropped = 0\<rparr>\<rparr>) ''c2''"
    by (simp add: Map_has_def)
  show ?thesis
    using subscribe_then_unsubscribe[OF orders_topic h, of "''t3''" "''bob''" None "''t2''" "''bob''" "Some 2" None]
          orders_topic
    by simp
qed

text \<open>
  A connection that is already subscribed: the subscribe replaces its record and the unsubscribe
  removes it, so the table is not as it was.
\<close>

theorem unsubscribe_after_resubscribe_empties_table:
  "map_option subscribers (Map_get (topics orders_broker) ''orders'')
       = Some [(''c1'', \<lparr>socket = ''c1'', clientId = ''alice'', queue = \<lparr>items = [], capacity = 512\<rparr>\<rparr>)]
   \<and> map_option subscribers
        (Map_get (topics (unsubscribe ''t3'' ''c1'' ''orders'' ''alice'' None
                            (subscribe ''t2'' ''c1'' ''orders'' ''alice'' None None orders_broker))) ''orders'')
       = Some []"
  by (simp add: orders_broker_eq subscribe_def unsubscribe_def toSend_def Map_delete_def
        socket_emit_def Let_def)

section \<open>Subscribing again\<close>

text \<open>
  Claim C10. If connection \<open>c\<close> is already in the subscriber table of topic \<open>t\<close>, with any
  record and any events in its queue, a further \<open>subscribe(c, t, client_id')\<close> puts a new record
  in its place in the table: the record carries \<open>client_id'\<close> and an empty queue of the
  configured capacity, and the other entries are as before. What the call emits is the \<open>ack\<close>
  and the events of the replay it was asked for, taken from the ring: the events of the old queue
  are not emitted. The counters \<open>delivered\<close> and \<open>dropped\<close> move by the replay only (\<open>dropped\<close>
  only when the configured capacity is 0); without a replay they are unchanged.
\<close>

theorem resubscribe_replaces_record:
  assumes "Map_get (topics b) t = Some tp" and "Map_get (subscribers tp) c = Some old"
  shows "\<exists>tp'. Map_get (topics (subscribe now c t cid' lastN r b)) t = Some tp'
           \<and> subscribers tp' = Map_set (subscribers tp) c
                 \<lparr>socket = c, clientId = cid', queue = new_BoundedQueue (subscriberQueueSize (opts b))\<rparr>
           \<and> Map_get (subscribers tp') c
                 = Some \<lparr>socket = c, clientId = cid', queue = new_BoundedQueue (subscriberQueueSize (opts b))\<rparr>
           \<and> map fst (subscribers tp') = map fst (subscribers tp)
           \<and> emitted b (subscribe now c t cid' lastN r b)
                 = Emit c (AckMessage (truthy r) (Some now) (Some t))
                   # map (\<lambda>m. Emit c (EventMessage None (Some now) t m)) (toSend lastN (ring tp))
           \<and> delivered (stats tp') = delivered (stats tp) + length (toSend lastN (ring tp))
           \<and> dropped (stats tp') = dropped (stats tp)
                 + (if subscriberQueueSize (opts b) = 0 then length (toSend lastN (ring tp)) else 0)
           \<and> (lastN = None \<longrightarrow> delivered (stats tp') = delivered (stats tp)
                                \<and> dropped (stats tp') = dropped (stats tp))"
proof -
  let ?sub = "\<lparr>socket = c, clientId = cid', queue = new_BoundedQueue (subscriberQueueSize (opts b))\<rparr>"
  from subscribe_found[OF assms(1), of now c cid' lastN r] obtain ST where
    eq: "subscribe now c t cid' lastN r b =
       b\<lparr>topics := Map_set (topics b) t
            (tp\<lparr>subscribers := Map_set (subscribers tp) c ?sub, stats := ST\<rparr>),
         sent := sent b @ Emit c (AckMessage (truthy r) (Some now) (Some t))
                   # map (\<lambda>m. Emit c (EventMessage None (Some now) t m)) (toSend lastN (ring tp))\<rparr>"
    and st: "delivered ST = delivered (stats tp) + length (toSend lastN (ring tp))"
      "dropped ST = dropped (stats tp)
        + (if subscriberQueueSize (opts b) = 0 then length (toSend lastN (ring tp)) else 0)"
    by blast
  let ?tp' = "tp\<lparr>subscribers := Map_set (subscribers tp) c ?sub, stats := ST\<rparr>"
  have has: "Map_has (subscribers tp) c" using assms(2) by (simp add: Map_has_def)
  have 1: "Map_get (topics (subscribe now c t cid' lastN r b)) t = Some ?tp'"
    by (simp add: eq Map_get_set_same)
  have 2: "subscribers ?tp' = Map_set (subscribers tp) c ?sub" by simp
  have 3: "Map_get (subscribers ?tp') c = Some ?sub" by (simp add: Map_get_set_same)
  have 4: "map fst (subscribers ?tp') = map fst (subscribers tp)"
    using has by (simp add: Map_set_keys)
  have 5: "emitted b (subscribe now c t cid' lastN r b)
                 = Emit c (AckMessage (truthy r) (Some now) (Some t))
                   # map (\<lambda>m. Emit c (EventMessage None (Some now) t m)) (toSend lastN (ring tp))"
    by (simp add: eq emitted_def)
  have 6: "delivered (stats ?tp') = delivered (stats tp) + length (toSend lastN (ring tp))"
      "dropped (stats ?tp') = dropped (stats tp)
                 + (if subscriberQueueSize (opts b) = 0 then length (toSend lastN (ring tp)) else 0)"
    using st by simp_all
  have 7: "lastN = None \<longrightarrow> delivered (stats ?tp') = delivered (stats tp)
                                \<and> dropped (stats ?tp') = dropped (stats tp)"
    using st by (simp add: toSend_Nil)
  show ?thesis
    using 1 2 3 4 5 6 7 by blast
qed

lemma pending_topic:
  "Map_get (topics pending_broker) ''orders'' =
     Some \<lparr>name = ''orders'',
          subscribers =
            [(''c1'', \<lparr>socket = ''c1'', clientId = ''alice'',
                       queue = \<lparr>items = [\<lparr>topic = ''orders'', message = PublishPayload ''m0'' ''{}''\<rparr>],
                                capacity = 512\<rparr>\<rparr>)],
          ring = new_RingBuffer 100,
          stats = \<lparr>messages = 1, stat_subscribers = 1, delivered = 0, dropped = 0\<rparr>\<rparr>"
  by (simp add: pending_broker_def)

theorem resubscribe_replaces_record_witness:
  "Map_get (topics pending_broker) ''orders'' \<noteq> None
   \<and> map_option subscribers
       (Map_get (topics (subscribe ''t2'' ''c1'' ''orders'' ''carol'' None (Some ''r2'') pending_broker)) ''orders'')
       = Some [(''c1'', \<lparr>socket = ''c1'', clientId = ''carol'', queue = \<lparr>items = [], capacity = 512\<rparr>\<rparr>)]
   \<and> map_option stats
       (Map_get (topics (subscribe ''t2'' ''c1'' ''orders'' ''carol'' None (Some ''r2'') pending_broker)) ''orders'')
       = Some \<lparr>messages = 1, stat_subscribers = 1, delivered = 0, dropped = 0\<rparr>
   \<and> emitted pending_broker (subscribe ''t2'' ''c1'' ''orders'' ''carol'' None (Some ''r2'') pending_broker)
       = [Emit ''c1'' (AckMessage (Some ''r2'') (Some ''t2'') (Some ''orders''))]"
proof -
  have h: "Map_get (subscribers \<lparr>name = ''orders'',
          subscribers =
            [(''c1'', \<lparr>socket = ''c1'', clientId = ''alice'',
                       queue = \<lparr>items = [\<lparr>topic = ''orders'', message = PublishPayload ''m0'' ''{}''\<rparr>],
                                capacity = 512\<rparr>\<rparr>)],
          ring = new_RingBuffer 100,
          stats = \<lparr>messages = 1, stat_subscribers = 1, delivered = 0, dropped = 0\<rparr>\<rparr>) ''c1''
      = Some \<lparr>socket = ''c1'', clientId = ''alice'',
                       queue = \<lparr>items = [\<lparr>topic = ''orders'', message = PublishPayload ''m0'' ''{}''\<rparr>],
                                capacity = 512\<rparr>\<rparr>"
    by simp
  have T: "emitted pending_broker (subscribe ''t2'' ''c1'' ''orders'' ''carol'' None (Some ''r2'') pending_broker)
          = [Emit ''c1'' (AckMessage (Some ''r2'') (Some ''t2'') (Some ''orders''))]"
    using resubscribe_replaces_record[OF pending_topic h, of "''t2''" "''carol''" None "Some ''r2''"]
    by (auto simp: toSend_Nil truthy_def)
  have "subscribe ''t2'' ''c1'' ''orders'' ''carol'' None (Some ''r2'') pending_broker
        = pending_broker\<lparr>topics :=
       [(''orders'',
         \<lparr>name = ''orders'',
          subscribers =
            [(''c1'', \<lparr>socket = ''c1'', clientId = ''carol'', queue = \<lparr>items = [], capacity = 512\<rparr>\<rparr>)],
          ring = new_RingBuffer 100,
          stats = \<lparr>messages = 1, stat_subscribers = 1, delivered = 0, dropped = 0\<rparr>\<rparr>)],
         sent := sent pending_broker @ [Emit ''c1'' (AckMessage (Some ''r2'') (Some ''t2'') (Some ''orders''))]\<rparr>"
    by (simp add: pending_broker_def orders_broker_eq subscribe_def toSend_def Map_size_def
          new_BoundedQueue_def truthy_def default_opts_def Let_def)
  then have "map_option subscribers
       (Map_get (topics (subscribe ''t2'' ''c1'' ''orders'' ''carol'' None (Some ''r2'') pending_broker)) ''orders'')
       = Some [(''c1'', \<lparr>socket = ''c1'', clientId = ''carol'', queue = \<lparr>items = [], capacity = 512\<rparr>\<rparr>)]
   \<and> map_option stats
       (Map_get (topics (subscribe ''t2'' ''c1'' ''orders'' ''carol'' None (Some ''r2'') pending_broker)) ''orders'')
       = Some \<lparr>messages = 1, stat_subscribers = 1, delivered = 0, dropped = 0\<rparr>"
    by simp
  then show ?thesis using T pending_topic by simp
qed

section \<open>Request ids and timestamps\<close>

lemma emitted_append: "sent b' = sent b @ ext \<Longrightarrow> emitted b b' = ext"
  by (simp add: emitted_def)

lemma truthy_Some: "r \<noteq> [] \<Longrightarrow> truthy (Some r) = Some r"
  by (simp add: truthy_def)

lemma list_all_events:
  assumes "list_all (is_event_at now) ext"
  shows "list_all (stamped now) ext" and "list_all (reply_echoes r) ext" and "list_all no_request_id ext"
  using assms by (auto simp: list_all_iff is_event_at_stamped is_event_at_echo is_event_at_no_rid)

lemma stamped_iso: "iso8601_utc now \<Longrightarrow> stamped now e \<Longrightarrow> has_iso_ts e"
  by (cases e) simp_all

lemma list_all_stamped_iso:
  "iso8601_utc now \<Longrightarrow> list_all (stamped now) ext \<Longrightarrow> list_all has_iso_ts ext"
  by (auto simp: list_all_iff stamped_iso)

lemma on_message_sent:
  "\<exists>ext. sent (on_message now s msg b) = sent b @ ext \<and> list_all (stamped now) ext
       \<and> (\<forall>r. client_request_id msg = Some r \<and> r \<noteq> [] \<longrightarrow> list_all (reply_echoes r) ext)
       \<and> (\<forall>r. client_request_id msg = Some r \<and> \<not> is_subscription msg \<longrightarrow> list_all (reply_echoes r) ext)"
proof (cases msg)
  case (SubscribeMessage rq tpc cid lastN)
  show ?thesis
  proof (cases "Map_get (topics b) tpc")
    case None
    then show ?thesis
      using SubscribeMessage by (simp add: on_message_def subscribe_absent truthy_Some)
  next
    case (Some tp)
    from subscribe_found[OF Some, of now s cid lastN rq] obtain ST where
      eq: "subscribe now s tpc cid lastN rq b =
       b\<lparr>topics := Map_set (topics b) tpc
            (tp\<lparr>subscribers := Map_set (subscribers tp) s
                    \<lparr>socket = s, clientId = cid, queue = new_BoundedQueue (subscriberQueueSize (opts b))\<rparr>,
                stats := ST\<rparr>),
         sent := sent b @ Emit s (AckMessage (truthy rq) (Some now) (Some tpc))
                   # map (\<lambda>m. Emit s (EventMessage None (Some now) tpc m)) (toSend lastN (ring tp))\<rparr>"
      by blast
    let ?evs = "map (\<lambda>m. Emit s (EventMessage None (Some now) tpc m)) (toSend lastN (ring tp))"
    have ev: "list_all (is_event_at now) ?evs" by (simp add: list_all_iff)
    show ?thesis
      using SubscribeMessage eq list_all_events[OF ev]
      by (simp add: on_message_def truthy_Some)
  qed
next
  case (UnsubscribeMessage rq tpc cid)
  show ?thesis
  proof (cases "Map_get (topics b) tpc")
    case None
    then show ?thesis
      using UnsubscribeMessage by (simp add: on_message_def unsubscribe_absent truthy_Some)
  next
    case (Some tp)
    then show ?thesis
      using UnsubscribeMessage by (simp add: on_message_def unsubscribe_found truthy_Some)
  qed
next
  case (PublishMessage rq tpc m)
  show ?thesis
  proof (cases "Map_get (topics b) tpc")
    case None
    then show ?thesis
      using PublishMessage by (simp add: on_message_def publish_absent socket_emit_def)
  next
    case (Some tp)
    obtain ext where ext: "sent (snd (publish now tpc m rq b)) = sent b @ ext"
        "list_all (is_event_at now) ext"
      using publish_found_events(3)[OF Some, of now m rq] by blast
    have "sent (on_message now s msg b) = sent b @ (ext @ [Emit s (AckMessage rq (Some now) (Some tpc))])"
      using PublishMessage ext(1) publish_found_events(1)[OF Some, of now m rq]
      by (simp add: on_message_def socket_emit_def Let_def)
    then show ?thesis
      using PublishMessage list_all_events[OF ext(2)] by simp
  qed
next
  case (PingMessage rq)
  then show ?thesis by (simp add: on_message_def socket_emit_def)
next
  case (UnknownMessage rq)
  then show ?thesis by (simp add: on_message_def socket_emit_def)
qed

lemma heartbeat_sent:
  "sent (heartbeat now socks b) = sent b @ map (\<lambda>s. Emit s (InfoMessage None (Some now) None ''ping'')) socks"
  unfolding heartbeat_def by (induction socks arbitrary: b) (simp_all add: socket_emit_def)

lemma notices_info:
  "list_all (stamped now) (notices (topic_deleted_info now nm) subs)
   \<and> list_all no_request_id (notices (topic_deleted_info now nm) subs)"
  by (induction subs) (simp_all add: notices_def topic_deleted_info_def)

lemma deleteTopic_emitted:
  "list_all (stamped now) (emitted b (snd (deleteTopic now nm b)))
   \<and> list_all no_request_id (emitted b (snd (deleteTopic now nm b)))"
proof (cases "Map_get (topics b) nm")
  case None
  then show ?thesis by (simp add: deleteTopic_absent emitted_def)
next
  case (Some tp)
  then show ?thesis using notices_info[of now nm "subscribers tp"]
    by (simp add: deleteTopic_found emitted_def)
qed

lemma iso_example: "iso8601_utc ''2025-08-25T10:00:00.000Z''"
  by (simp add: iso8601_utc_def is_digit_def)

text \<open>
  Claim C7, amended. Let the clock reading \<open>now\<close> of an operation be the ISO-8601 UTC string
  that \<open>toISOString\<close> returns. Every envelope the server emits in that operation carries a
  \<open>ts\<close>, the \<open>ts\<close> is that reading, and so it is an ISO-8601 UTC timestamp: this holds for every
  kind, the envelopes of a session handling an inbound envelope (replies and events), the
  deletion notices and the heartbeat. When the inbound envelope carries a request id, every
  reply emitted for it (\<open>ack\<close>, \<open>error\<close>, \<open>pong\<close>) carries that request id, provided the
  request id is not the empty string or the inbound envelope is neither a subscribe nor an
  unsubscribe. The \<open>event\<close> envelopes emitted for it, to the subscribers of a publish and to
  the subscriber of a replay, carry no request id; deletion notices and heartbeats carry none
  either.
\<close>

theorem replies_echo_request_id:
  assumes "iso8601_utc now"
  shows "sent (on_message now s msg b) = sent b @ emitted b (on_message now s msg b)
   \<and> list_all (stamped now) (emitted b (on_message now s msg b))
   \<and> list_all has_iso_ts (emitted b (on_message now s msg b))
   \<and> (client_request_id msg = Some r \<and> r \<noteq> [] \<longrightarrow>
        list_all (reply_echoes r) (emitted b (on_message now s msg b)))
   \<and> (client_request_id msg = Some r \<and> \<not> is_subscription msg \<longrightarrow>
        list_all (reply_echoes r) (emitted b (on_message now s msg b)))
   \<and> list_all (stamped now) (emitted b (snd (deleteTopic now t b)))
   \<and> list_all has_iso_ts (emitted b (snd (deleteTopic now t b)))
   \<and> list_all no_request_id (emitted b (snd (deleteTopic now t b)))
   \<and> list_all (stamped now) (emitted b (heartbeat now socks b))
   \<and> list_all has_iso_ts (emitted b (heartbeat now socks b))
   \<and> list_all no_request_id (emitted b (heartbeat now socks b))"
proof -
  obtain ext where ext: "sent (on_message now s msg b) = sent b @ ext" "list_all (stamped now) ext"
      "\<forall>r. client_request_id msg = Some r \<and> r \<noteq> [] \<longrightarrow> list_all (reply_echoes r) ext"
      "\<forall>r. client_request_id msg = Some r \<and> \<not> is_subscription msg \<longrightarrow> list_all (reply_echoes r) ext"
    using on_message_sent by blast
  have e: "emitted b (on_message now s msg b) = ext"
    using ext(1) by (rule emitted_append)
  have m: "list_all has_iso_ts ext"
    using assms ext(2) by (rule list_all_stamped_iso)
  have h: "emitted b (heartbeat now socks b)
             = map (\<lambda>s. Emit s (InfoMessage None (Some now) None ''ping'')) socks"
    by (rule emitted_append) (rule heartbeat_sent)
  have hb: "list_all (stamped now) (emitted b (heartbeat now socks b))"
      "list_all no_request_id (emitted b (heartbeat now socks b))"
    unfolding h by (simp_all add: list_all_iff)
  have hi: "list_all has_iso_ts (emitted b (heartbeat now socks b))"
    using assms hb(1) by (rule list_all_stamped_iso)
  have d: "list_all (stamped now) (emitted b (snd (deleteTopic now t b)))"
      "list_all no_request_id (emitted b (snd (deleteTopic now t b)))"
    using deleteTopic_emitted[of now b t] by simp_all
  have di: "list_all has_iso_ts (emitted b (snd (deleteTopic now t b)))"
    using assms d(1) by (rule list_all_stamped_iso)
  show ?thesis
    using ext e m hb hi d di by simp
qed

text \<open>
  A publish with request id \<open>req-1\<close> to a topic with one subscriber, at an ISO-8601 clock
  reading: both envelopes carry the reading, and the \<open>ack\<close> echoes the request id.
\<close>

theorem replies_echo_request_id_witness:
  "iso8601_utc ''2025-08-25T10:00:00.000Z''
   \<and> client_request_id (PublishMessage (Some ''req-1'') ''orders'' (PublishPayload ''m0'' ''{}'')) = Some ''req-1''
   \<and> ''req-1'' \<noteq> []
   \<and> \<not> is_subscription (PublishMessage (Some ''req-1'') ''orders'' (PublishPayload ''m0'' ''{}''))
   \<and> list_all (reply_echoes ''req-1'')
        (emitted orders_broker
           (on_message ''2025-08-25T10:00:00.000Z'' ''p1''
              (PublishMessage (Some ''req-1'') ''orders'' (PublishPayload ''m0'' ''{}'')) orders_broker))
   \<and> list_all (stamped ''2025-08-25T10:00:00.000Z'')
        (emitted orders_broker
           (on_message ''2025-08-25T10:00:00.000Z'' ''p1''
              (PublishMessage (Some ''req-1'') ''orders'' (PublishPayload ''m0'' ''{}'')) orders_broker))
   \<and> list_all has_iso_ts
        (emitted orders_broker
           (on_message ''2025-08-25T10:00:00.000Z'' ''p1''
              (PublishMessage (Some ''req-1'') ''orders'' (PublishPayload ''m0'' ''{}'')) orders_broker))"
  using replies_echo_request_id[OF iso_example, of "''p1''"
          "PublishMessage (Some ''req-1'') ''orders'' (PublishPayload ''m0'' ''{}'')" orders_broker "''req-1''"]
        iso_example
  by simp

text \<open>
  Two inbound envelopes whose request id is not echoed on every outbound envelope. A publish
  with request id \<open>req-1\<close> to a topic with one subscriber: the \<open>ack\<close> to the publisher echoes
  the request id, the \<open>event\<close> to the subscriber has none. A subscribe whose request id is the
  empty string: the \<open>ack\<close> has no request id.
\<close>

theorem request_id_not_always_echoed:
  "emitted orders_broker
     (on_message ''2025-08-25T10:00:00.000Z'' ''p1''
        (PublishMessage (Some ''req-1'') ''orders'' (PublishPayload ''m0'' ''{}'')) orders_broker)
   = [Emit ''c1'' (EventMessage None (Some ''2025-08-25T10:00:00.000Z'') ''orders'' (PublishPayload ''m0'' ''{}'')),
      Emit ''p1'' (AckMessage (Some ''req-1'') (Some ''2025-08-25T10:00:00.000Z'') (Some ''orders''))]
   \<and> request_id (EventMessage None (Some ''2025-08-25T10:00:00.000Z'') ''orders'' (PublishPayload ''m0'' ''{}''))
       \<noteq> Some ''req-1''
   \<and> client_request_id (SubscribeMessage (Some []) ''orders'' ''bob'' None) = Some []
   \<and> emitted orders_broker
        (on_message ''2025-08-25T10:00:01.000Z'' ''c2''
           (SubscribeMessage (Some []) ''orders'' ''bob'' None) orders_broker)
      = [Emit ''c2'' (AckMessage None (Some ''2025-08-25T10:00:01.000Z'') (Some ''orders''))]
   \<and> request_id (AckMessage None (Some ''2025-08-25T10:00:01.000Z'') (Some ''orders'')) \<noteq> Some []"
  by (simp add: orders_broker_eq on_message_def publish_def subscribe_def emitted_def socket_emit_def
        Let_def enqueue_and_flush_def flush_def pushDropOldest_def drain_def toSend_def truthy_def
        Map_size_def new_BoundedQueue_def)

section \<open>Delivery order and accounting\<close>

lemma events_for_append: "events_for s t (xs @ ys) = events_for s t xs @ events_for s t ys"
  by (simp add: events_for_def List.map_filter_def)

lemma events_for_fan_out_absent:
  "s \<notin> set (map fst subs) \<Longrightarrow>
   events_for s t (map (\<lambda>p. Emit (fst p) (EventMessage None (Some now) t m)) subs) = []"
  by (induction subs) (auto simp: events_for_def List.map_filter_def)

lemma events_for_fan_out:
  "distinct (map fst subs) \<Longrightarrow> s \<in> set (map fst subs) \<Longrightarrow>
   events_for s t (map (\<lambda>p. Emit (fst p) (EventMessage None (Some now) t m)) subs) = [m]"
proof (induction subs)
  case Nil
  then show ?case by simp
next
  case (Cons p ps)
  show ?case
  proof (cases "fst p = s")
    case True
    then have "s \<notin> set (map fst ps)" using Cons.prems by auto
    then show ?thesis
      using True events_for_fan_out_absent[of s ps t now m]
      by (simp add: events_for_def List.map_filter_def)
  next
    case False
    then show ?thesis
      using Cons by (auto simp: events_for_def List.map_filter_def)
  qed
qed

lemma publish_delivers:
  assumes "broker_ok b" and "Map_get (topics b) t = Some tp" and "Map_has (subscribers tp) s"
  shows "events_for s t (sent (snd (publish now t m r b))) = events_for s t (sent b) @ [m]"
proof -
  have tp: "topic_ok (subscriberQueueSize (opts b)) tp"
    using assms(1,2) by (rule broker_ok_topic)
  from publish_ok[OF assms(2) tp, of now m r] obtain ST where
    eq: "publish now t m r b =
       (Inr now,
        b\<lparr>topics := Map_set (topics b) t (tp\<lparr>ring := append_ring m (ring tp), stats := ST\<rparr>),
          sent := sent b @ map (\<lambda>p. Emit (fst p) (EventMessage None (Some now) t m)) (subscribers tp)\<rparr>)"
    by blast
  have "distinct (map fst (subscribers tp))" using tp by (simp add: topic_ok_def)
  moreover have "s \<in> set (map fst (subscribers tp))" using assms(3) by (simp add: Map_has_iff)
  ultimately show ?thesis
    by (simp add: eq events_for_append events_for_fan_out)
qed

text \<open>
  Claim C6. Take a broker reached by any operations, a topic \<open>t\<close> and a connection \<open>s\<close> that is
  in the subscriber table of \<open>t\<close> when the publish of \<open>p1\<close> on \<open>t\<close> is processed and, after
  any further operations, when the publish of \<open>p2\<close> on \<open>t\<close> is processed. Then the payloads of
  the \<open>event\<close> envelopes emitted on \<open>s\<close> for \<open>t\<close> are those emitted before, then \<open>p1\<close>, then
  what the operations in between emitted, then \<open>p2\<close>: \<open>p1\<close> is delivered before \<open>p2\<close>. With no
  operation in between, \<open>p2\<close> follows \<open>p1\<close> at once.
\<close>

theorem events_in_publish_order:
  assumes "b = run ops0 (new_InMemoryBroker os)"
    and "Map_get (topics b) t = Some tp1" and "Map_has (subscribers tp1) s"
    and "b1 = snd (publish now1 t p1 r1 b)"
    and "b2 = run ops b1"
    and "Map_get (topics b2) t = Some tp2" and "Map_has (subscribers tp2) s"
    and "b3 = snd (publish now2 t p2 r2 b2)"
  shows "(\<exists>mid. events_for s t (sent b3) = events_for s t (sent b) @ [p1] @ mid @ [p2])
       \<and> (ops = [] \<longrightarrow> events_for s t (sent b3) = events_for s t (sent b) @ [p1, p2])"
proof -
  have ok: "broker_ok b" unfolding assms(1) by (rule run_ok) (rule broker_ok_new)
  have ok1: "broker_ok b1" using apply_op_ok[OF ok, of "(now1, Publish t p1 r1)"] assms(4) by simp
  have ok2: "broker_ok b2" unfolding assms(5) using ok1 by (rule run_ok)
  have e1: "events_for s t (sent b1) = events_for s t (sent b) @ [p1]"
    unfolding assms(4) using ok assms(2,3) by (rule publish_delivers)
  obtain ext where ext: "sent b2 = sent b1 @ ext"
    unfolding assms(5) using run_sent by blast
  have e3: "events_for s t (sent b3) = events_for s t (sent b2) @ [p2]"
    unfolding assms(8) using ok2 assms(6,7) by (rule publish_delivers)
  have all: "events_for s t (sent b3) = events_for s t (sent b) @ [p1] @ events_for s t ext @ [p2]"
    using e1 e3 ext by (simp add: events_for_append)
  have "ext = []" if "ops = []"
    using that ext assms(5) by (simp add: run_Nil)
  then have "ops = [] \<longrightarrow> events_for s t (sent b3) = events_for s t (sent b) @ [p1, p2]"
    using all by (auto simp: events_for_def List.map_filter_def)
  then show ?thesis using all by blast
qed

lemma publish_topic:
  assumes "broker_ok b" and "Map_get (topics b) t = Some tp"
  shows "\<exists>tp'. Map_get (topics (snd (publish now t m r b))) t = Some tp'
           \<and> subscribers tp' = subscribers tp
           \<and> messages (stats tp') = messages (stats tp) + 1
           \<and> delivered (stats tp') = delivered (stats tp) + length (subscribers tp)
           \<and> dropped (stats tp') = dropped (stats tp)
                + (if subscriberQueueSize (opts b) = 0 then length (subscribers tp) else 0)"
proof -
  have tp: "topic_ok (subscriberQueueSize (opts b)) tp"
    using assms by (rule broker_ok_topic)
  from publish_ok[OF assms(2) tp, of now m r] obtain ST where
    eq: "publish now t m r b =
       (Inr now,
        b\<lparr>topics := Map_set (topics b) t (tp\<lparr>ring := append_ring m (ring tp), stats := ST\<rparr>),
          sent := sent b @ map (\<lambda>p. Emit (fst p) (EventMessage None (Some now) t m)) (subscribers tp)\<rparr>)"
    and st: "messages ST = messages (stats tp) + 1"
      "delivered ST = delivered (stats tp) + length (subscribers tp)"
      "dropped ST = dropped (stats tp)
        + (if subscriberQueueSize (opts b) = 0 then length (subscribers tp) else 0)"
    by blast
  show ?thesis
    by (rule exI[of _ "tp\<lparr>ring := append_ring m (ring tp), stats := ST\<rparr>"])
       (simp add: eq st Map_get_set_same)
qed

theorem events_in_publish_order_witness:
  "Map_has [(''c1'', \<lparr>socket = ''c1'', clientId = ''alice'', queue = \<lparr>items = [], capacity = 512\<rparr>\<rparr>)] ''c1''
   \<and> events_for ''c1'' ''orders''
        (sent (snd (publish ''t3'' ''orders'' (PublishPayload ''m1'' ''{}'') None
                 (snd (publish ''t2'' ''orders'' (PublishPayload ''m0'' ''{}'') None orders_broker)))))
       = [PublishPayload ''m0'' ''{}'', PublishPayload ''m1'' ''{}'']"
proof -
  let ?m0 = "PublishPayload ''m0'' ''{}''" and ?m1 = "PublishPayload ''m1'' ''{}''"
  let ?tp = "\<lparr>name = ''orders'',
         subscribers =
           [(''c1'', \<lparr>socket = ''c1'', clientId = ''alice'', queue = \<lparr>items = [], capacity = 512\<rparr>\<rparr>)],
         ring = new_RingBuffer 100,
         stats = \<lparr>messages = 0, stat_subscribers = 1, delivered = 0, dropped = 0\<rparr>\<rparr>"
  let ?b1 = "snd (publish ''t2'' ''orders'' ?m0 None orders_broker)"
  have ok: "broker_ok orders_broker"
    unfolding orders_broker_def by (rule run_ok) (rule broker_ok_new)
  have h1: "Map_has (subscribers ?tp) ''c1''" by (simp add: Map_has_def)
  obtain tp2 where tp2: "Map_get (topics ?b1) ''orders'' = Some tp2" "subscribers tp2 = subscribers ?tp"
    using publish_topic[OF ok orders_topic, of "''t2''" ?m0 None] by blast
  have h2: "Map_has (subscribers tp2) ''c1''" using tp2(2) h1 by simp
  have "events_for ''c1'' ''orders'' (sent (snd (publish ''t3'' ''orders'' ?m1 None ?b1)))
          = events_for ''c1'' ''orders'' (sent orders_broker) @ [?m0, ?m1]"
    using events_in_publish_order[OF orders_broker_def orders_topic h1 refl run_Nil[symmetric] tp2(1) h2 refl,
            of "''t3''" ?m1 None]
    by simp
  moreover have "events_for ''c1'' ''orders'' (sent orders_broker) = []"
    by (simp add: orders_broker_eq events_for_def List.map_filter_def)
  ultimately show ?thesis using h1 by simp
qed

subsection \<open>Scenario S6\<close>

lemma publishes_topic:
  assumes "broker_ok b" and "Map_get (topics b) t = Some tp" and "1 \<le> subscriberQueueSize (opts b)"
  shows "\<exists>tp'. Map_get (topics (run (map (\<lambda>x. (nw, Publish t (pm x) r)) xs) b)) t = Some tp'
           \<and> subscribers tp' = subscribers tp
           \<and> messages (stats tp') = messages (stats tp) + length xs
           \<and> delivered (stats tp') = delivered (stats tp) + length xs * length (subscribers tp)
           \<and> dropped (stats tp') = dropped (stats tp)"
  using assms
proof (induction xs arbitrary: b tp)
  case Nil
  then show ?case by (simp add: run_Nil)
next
  case (Cons x xs)
  let ?b1 = "snd (publish nw t (pm x) r b)"
  obtain tp1 where tp1: "Map_get (topics ?b1) t = Some tp1" "subscribers tp1 = subscribers tp"
      "messages (stats tp1) = messages (stats tp) + 1"
      "delivered (stats tp1) = delivered (stats tp) + length (subscribers tp)"
      "dropped (stats tp1) = dropped (stats tp)"
    using publish_topic[OF Cons.prems(1,2), of nw "pm x" r] Cons.prems(3) by auto
  have ok1: "broker_ok ?b1"
    using apply_op_ok[OF Cons.prems(1), of "(nw, Publish t (pm x) r)"] by simp
  have q1: "1 \<le> subscriberQueueSize (opts ?b1)"
    using apply_op_opts[of b "(nw, Publish t (pm x) r)"] Cons.prems(3) by simp
  from Cons.IH[OF ok1 tp1(1) q1] obtain tp' where
    "Map_get (topics (run (map (\<lambda>x. (nw, Publish t (pm x) r)) xs) ?b1)) t = Some tp'"
    "subscribers tp' = subscribers tp1"
    "messages (stats tp') = messages (stats tp1) + length xs"
    "delivered (stats tp') = delivered (stats tp1) + length xs * length (subscribers tp1)"
    "dropped (stats tp') = dropped (stats tp1)"
    by blast
  then show ?case
    using tp1 by (intro exI[of _ tp']) (simp add: run_Cons)
qed

lemma s6_setup_topic:
  "Map_get (topics s6_setup) ''bp'' =
     Some \<lparr>name = ''bp'',
         subscribers =
           [(''S'', \<lparr>socket = ''S'', clientId = ''bp1'', queue = \<lparr>items = [], capacity = 512\<rparr>\<rparr>)],
         ring = new_RingBuffer 100,
         stats = \<lparr>messages = 0, stat_subscribers = 1, delivered = 0, dropped = 0\<rparr>\<rparr>"
  by (simp add: s6_setup_def run_def createTopic_def subscribe_def new_InMemoryBroker_def Map_has_def
     toSend_def Map_size_def new_BoundedQueue_def truthy_def default_opts_def)

lemma s6_topic:
  "\<exists>tp'. Map_get (topics (s6 n)) ''bp'' = Some tp'
         \<and> subscribers tp' = [(''S'', \<lparr>socket = ''S'', clientId = ''bp1'', queue = \<lparr>items = [], capacity = 512\<rparr>\<rparr>)]
         \<and> messages (stats tp') = n \<and> delivered (stats tp') = n \<and> dropped (stats tp') = 0"
proof -
  have ok: "broker_ok s6_setup"
    unfolding s6_setup_def by (rule run_ok) (rule broker_ok_new)
  have q: "1 \<le> subscriberQueueSize (opts s6_setup)"
    unfolding s6_setup_def by (simp add: run_opts new_InMemoryBroker_def default_opts_def)
  show ?thesis
    using publishes_topic[OF ok s6_setup_topic q, of "''t2''" bp_message None "[0 ..< n]"]
    by (simp add: s6_def)
qed

lemma Map_get_map:
  "Map_get (map (\<lambda>p. (fst p, f (snd p))) m) k = map_option f (Map_get m k)"
  by (induction m) simp_all

lemma getStats_get:
  "Map_get (getStats b) t
     = map_option (\<lambda>tp. (stats tp)\<lparr>stat_subscribers := Map_size (subscribers tp)\<rparr>) (Map_get (topics b) t)"
  unfolding getStats_def by (rule Map_get_map)

text \<open>
  Claim C2, amended. In scenario S6 (queue size 512, one subscriber subscribed before the first
  publish, then 1200 accepted publishes), the stats of the topic are \<open>messages = 1200\<close>,
  \<open>delivered = 1200\<close> and \<open>dropped = 0\<close>, the queue of the subscriber is empty, and
  \<open>delivered + still_queued + dropped = 1200\<close>. The same holds for any number of publishes
  in place of 1200.
\<close>

theorem s6_accounting:
  "Map_get (getStats (s6 n)) ''bp''
     = Some \<lparr>messages = n, stat_subscribers = 1, delivered = n, dropped = 0\<rparr>
   \<and> still_queued (s6 n) ''bp'' = 0
   \<and> Map_get (getStats (s6 1200)) ''bp''
     = Some \<lparr>messages = 1200, stat_subscribers = 1, delivered = 1200, dropped = 0\<rparr>
   \<and> still_queued (s6 1200) ''bp'' = 0
   \<and> map_option (\<lambda>st. delivered st + still_queued (s6 1200) ''bp'' + dropped st)
         (Map_get (getStats (s6 1200)) ''bp'') = Some 1200"
proof -
  have *: "Map_get (getStats (s6 k)) ''bp''
             = Some \<lparr>messages = k, stat_subscribers = 1, delivered = k, dropped = 0\<rparr>
           \<and> still_queued (s6 k) ''bp'' = 0" for k
  proof -
    obtain tp' where tp': "Map_get (topics (s6 k)) ''bp'' = Some tp'"
        "subscribers tp' = [(''S'', \<lparr>socket = ''S'', clientId = ''bp1'', queue = \<lparr>items = [], capacity = 512\<rparr>\<rparr>)]"
        "messages (stats tp') = k" "delivered (stats tp') = k" "dropped (stats tp') = 0"
      using s6_topic[of k] by blast
    have "(stats tp')\<lparr>stat_subscribers := Map_size (subscribers tp')\<rparr>
            = \<lparr>messages = k, stat_subscribers = 1, delivered = k, dropped = 0\<rparr>"
      using tp'(2-5) by (cases "stats tp'") (simp add: Map_size_def)
    moreover have "still_queued (s6 k) ''bp'' = 0"
      using tp'(1,2) by (simp add: still_queued_def queue_length_def)
    ultimately show ?thesis using tp'(1) by (simp add: getStats_get)
  qed
  show ?thesis using *[of n] *[of 1200] by simp
qed

theorem s6_accounting_witness:
  "Map_get (getStats (s6 3)) ''bp''
     = Some \<lparr>messages = 3, stat_subscribers = 1, delivered = 3, dropped = 0\<rparr>
   \<and> still_queued (s6 3) ''bp'' = 0"
  using s6_accounting[of 3] by simp

text \<open>The claim asks for \<open>dropped > 0\<close> in S6; the stats have \<open>dropped = 0\<close>.\<close>

theorem s6_drops_nothing:
  "\<not> (case Map_get (getStats (s6 1200)) ''bp'' of
         None \<Rightarrow> False
       | Some st \<Rightarrow> messages st = 1200 \<and> 0 < dropped st
                    \<and> delivered st + still_queued (s6 1200) ''bp'' + dropped st = 1200)"
proof -
  obtain tp' where tp': "Map_get (topics (s6 1200)) ''bp'' = Some tp'" "dropped (stats tp') = 0"
    using s6_topic[of 1200] by blast
  then show ?thesis by (simp add: getStats_get)
qed

end
